theory Spec2Isabelle
  imports Main "HOL-Library.AList"
begin

section \<open>JavaScript values\<close>

text \<open>
  The server in \<^verbatim>\<open>index.js\<close> stores three kinds of values in board cells and in the
  \<^verbatim>\<open>winner\<close> field: \<^verbatim>\<open>undefined\<close>, \<^verbatim>\<open>null\<close> and strings. Strict
  equality \<^verbatim>\<open>===\<close> on these values is structural equality.
\<close>

datatype jsval = Undefined | Null | Str string

text \<open>Truthiness as used by \<^verbatim>\<open>&&\<close>, \<^verbatim>\<open>||\<close>, \<^verbatim>\<open>!\<close> and \<^verbatim>\<open>if\<close>: the empty string is falsy.\<close>

fun truthy :: "jsval \<Rightarrow> bool" where
  "truthy Undefined = False"
| "truthy Null = False"
| "truthy (Str s) = (s \<noteq> [])"

text \<open>
  Reading \<^verbatim>\<open>board[i]\<close> for an integer \<^verbatim>\<open>i\<close>: an index outside the array reads
  \<^verbatim>\<open>undefined\<close>.
\<close>

definition cellAt :: "jsval list \<Rightarrow> int \<Rightarrow> jsval" where
  "cellAt board i = (if 0 \<le> i \<and> i < int (length board) then board ! nat i else Undefined)"

text \<open>
  Writing \<^verbatim>\<open>board[i] = v\<close> for an integer \<^verbatim>\<open>i\<close>: inside the array the element is
  replaced; at or beyond the length the array is extended (the holes read as
  \<^verbatim>\<open>undefined\<close>); a negative index sets a property that is no array element.
\<close>

definition cellSet :: "jsval list \<Rightarrow> int \<Rightarrow> jsval \<Rightarrow> jsval list" where
  "cellSet board i v =
     (if i < 0 then board
      else if i < int (length board) then board[nat i := v]
      else board @ replicate (nat i - length board) Undefined @ [v])"

section \<open>Board logic: \<^verbatim>\<open>checkWinner\<close>\<close>

definition winPatterns :: "(int \<times> int \<times> int) list" where
  "winPatterns =
     [(0, 1, 2), (3, 4, 5), (6, 7, 8),
      (0, 3, 6), (1, 4, 7), (2, 5, 8),
      (0, 4, 8), (2, 4, 6)]"

text \<open>The test of the loop body, for one pattern.\<close>

fun patternWins :: "jsval list \<Rightarrow> int \<times> int \<times> int \<Rightarrow> bool" where
  "patternWins board (a, b, c) =
     (truthy (cellAt board a) \<and> cellAt board a = cellAt board b \<and> cellAt board a = cellAt board c)"

text \<open>The \<^verbatim>\<open>for ... of\<close> loop: \<open>Some w\<close> when the loop returns \<open>w\<close>, \<open>None\<close> when it runs out.\<close>

fun scanPatterns :: "jsval list \<Rightarrow> (int \<times> int \<times> int) list \<Rightarrow> jsval option" where
  "scanPatterns board [] = None"
| "scanPatterns board (p # rest) =
     (if patternWins board p then Some (cellAt board (fst p)) else scanPatterns board rest)"

definition checkWinner :: "jsval list \<Rightarrow> jsval" where
  "checkWinner board =
     (case scanPatterns board winPatterns of
        Some w \<Rightarrow> w
      | None \<Rightarrow> if Null \<in> set board then Null else Str ''Tie'')"

section \<open>Session records and the session store\<close>

text \<open>The objects pushed onto \<^verbatim>\<open>game.players\<close>; \<open>id_p\<close> is the field \<^verbatim>\<open>id\<close> (the socket id).\<close>

record player =
  id_p :: string
  username :: string
  symbol :: string
  disconnected :: bool

text \<open>
  The objects stored in \<^verbatim>\<open>games\<close>. The object literal of \<^verbatim>\<open>createGame\<close> has no
  \<^verbatim>\<open>winner\<close> property: \<open>winner = Undefined\<close> stands for the absent property.
\<close>

record game =
  players :: "player list"
  board :: "jsval list"
  currentPlayer :: string
  status :: string
  winner :: jsval

text \<open>
  \<^verbatim>\<open>const games = {}\<close> is a plain object used as a dictionary. Its own properties are kept
  as an association list in insertion order (the order of \<^verbatim>\<open>for ... in\<close>; all keys written
  by the program start with \<^verbatim>\<open>game_\<close>, so none is an array index).

  A plain object also inherits the properties of \<^verbatim>\<open>Object.prototype\<close>, and the handlers
  read \<^verbatim>\<open>games[gameId]\<close> with a \<^verbatim>\<open>gameId\<close> chosen by the client. For the twelve
  names below the read yields a function or an object, all truthy.
\<close>

definition objectPrototypeKeys :: "string list" where
  "objectPrototypeKeys =
     [''constructor'', ''__defineGetter__'', ''__defineSetter__'', ''hasOwnProperty'',
      ''__lookupGetter__'', ''__lookupSetter__'', ''isPrototypeOf'', ''propertyIsEnumerable'',
      ''toString'', ''valueOf'', ''__proto__'', ''toLocaleString'']"

text \<open>
  \<^verbatim>\<open>requestRematch\<close> assigns four properties to whatever \<^verbatim>\<open>games[gameId]\<close> yields.
  \<open>rematched\<close> lists the inherited names for which it has done so. No other handler
  writes to an inherited object, so every such object carries the same four values:
  a board of nine \<^verbatim>\<open>null\<close>, \<^verbatim>\<open>'X'\<close>, \<^verbatim>\<open>null\<close> and \<^verbatim>\<open>'in-progress'\<close>.
\<close>

record server =
  games :: "(string \<times> game) list"
  rematched :: "string list"

definition initialServer :: server where
  "initialServer = \<lparr>games = [], rematched = []\<rparr>"

text \<open>
  \<^verbatim>\<open>games['__proto__']\<close> is \<^verbatim>\<open>Object.prototype\<close> itself: after a rematch request for
  that name every object inherits \<^verbatim>\<open>board\<close>, \<^verbatim>\<open>currentPlayer\<close>, \<^verbatim>\<open>winner\<close> and
  \<^verbatim>\<open>status\<close> as enumerable properties.
\<close>

definition prototypePolluted :: "server \<Rightarrow> bool" where
  "prototypePolluted s = (''__proto__'' \<in> set (rematched s))"

text \<open>
  The value of \<^verbatim>\<open>games[gameId]\<close>: an own session record, a truthy inherited value, or a
  falsy value (\<^verbatim>\<open>undefined\<close>, or the inherited \<^verbatim>\<open>winner\<close>, which is \<^verbatim>\<open>null\<close>).
\<close>

datatype lookup = Own game | Inherited | Missing

definition lookupGame :: "server \<Rightarrow> string \<Rightarrow> lookup" where
  "lookupGame s gameId =
     (case map_of (games s) gameId of
        Some g \<Rightarrow> Own g
      | None \<Rightarrow>
          if gameId \<in> set objectPrototypeKeys then Inherited
          else if prototypePolluted s \<and> gameId \<in> set [''board'', ''currentPlayer'', ''status'']
          then Inherited
          else Missing)"

text \<open>
  Whether \<^verbatim>\<open>game.board\<close> is defined for an inherited value: its own property after a
  rematch request for that name, or inherited from the polluted \<^verbatim>\<open>Object.prototype\<close>.
  \<^verbatim>\<open>game.players\<close> is \<^verbatim>\<open>undefined\<close> for every inherited value.
\<close>

definition inheritedHasBoard :: "server \<Rightarrow> string \<Rightarrow> bool" where
  "inheritedHasBoard s gameId = (gameId \<in> set (rematched s) \<or> prototypePolluted s)"

text \<open>Reading \<^verbatim>\<open>game.winner\<close> of a session record falls through to the prototype.\<close>

definition readWinner :: "server \<Rightarrow> game \<Rightarrow> jsval" where
  "readWinner s g = (if winner g = Undefined \<and> prototypePolluted s then Null else winner g)"

section \<open>What a handler emits\<close>

datatype payload =
    GameCreated string string "jsval list"
  | JoinError string
  | GameStarted "player list" "jsval list" string string
  | JoinSuccess string string
  | MoveError string
  | MoveMade "jsval list" jsval string string
  | RematchAccepted "jsval list" string string
  | PlayerLeft

datatype ack = AckSuccess | AckError string

text \<open>
  \<open>ToSocket\<close> is \<^verbatim>\<open>socket.emit\<close> (to the requester), \<open>ToRoom r\<close> is
  \<^verbatim>\<open>io.to(r).emit\<close>, \<open>Ack\<close> is the call of the acknowledgement \<^verbatim>\<open>callback\<close>.
\<close>

datatype emission = ToSocket payload | ToRoom string payload | Ack ack

text \<open>
  A handler either runs to its end, having emitted a list of events, or throws a
  \<^verbatim>\<open>TypeError\<close> that no \<^verbatim>\<open>try\<close> block catches.
\<close>

datatype outcome = Emits "emission list" | UncaughtTypeError

section \<open>The handlers\<close>

text \<open>
  Each handler of \<^verbatim>\<open>io.on('connection', ...)\<close> becomes a function from the socket id,
  the payload and the state to what is emitted and the new state. The ids \<^verbatim>\<open>gameId\<close>
  are strings (a property key is converted to one), and \<^verbatim>\<open>cellIndex\<close> is an integer.
  The rooms of the transport (\<^verbatim>\<open>socket.join\<close>, \<^verbatim>\<open>socket.leave\<close>), the log lines
  and the chat relay \<^verbatim>\<open>sendMessage\<close>, which never writes to \<^verbatim>\<open>games\<close>, are left out.
  Nothing in the \<^verbatim>\<open>try\<close> block of \<^verbatim>\<open>createGame\<close> throws, so its \<^verbatim>\<open>catch\<close> branch
  has no counterpart here.
\<close>

text \<open>Decimal digits of a number, for the template string \<^verbatim>\<open>Player_${...}\<close>.\<close>

fun decimal :: "nat \<Rightarrow> string" where
  "decimal n =
     (if n < 10 then [char_of (48 + n)]
      else decimal (n div 10) @ [char_of (48 + n mod 10)])"

text \<open>
  \<^verbatim>\<open>username || `Player_${Math.floor(Math.random() * 1000)}`\<close>; the random number is the
  input \<open>rnd\<close>, and an absent name is the empty string.
\<close>

definition playerNameOf :: "string \<Rightarrow> nat \<Rightarrow> string" where
  "playerNameOf name rnd = (if name \<noteq> [] then name else ''Player_'' @ decimal rnd)"

text \<open>
  \<^verbatim>\<open>createGame\<close>; \<open>token\<close> is \<^verbatim>\<open>Math.random().toString(36).substring(2, 11)\<close>.
  The assignment \<^verbatim>\<open>games[gameId] = {...}\<close> replaces the value of an existing key.
\<close>

definition createGame :: "string \<Rightarrow> string \<Rightarrow> string \<Rightarrow> nat \<Rightarrow> server \<Rightarrow> outcome \<times> server" where
  "createGame socket name token rnd s =
     (let gameId = ''game_'' @ token;
          playerName = playerNameOf name rnd;
          g = \<lparr>players = [\<lparr>id_p = socket, username = playerName, symbol = ''X'',
                             disconnected = False\<rparr>],
               board = replicate 9 Null,
               currentPlayer = ''X'',
               status = ''waiting'',
               winner = Undefined\<rparr>
      in (Emits [ToSocket (GameCreated gameId playerName (board g))],
          s\<lparr>games := AList.update gameId g (games s)\<rparr>))"

definition joinGame :: "string \<Rightarrow> string \<Rightarrow> string \<Rightarrow> nat \<Rightarrow> server \<Rightarrow> outcome \<times> server" where
  "joinGame socket gameId name rnd s =
     (case lookupGame s gameId of
        Missing \<Rightarrow> (Emits [ToSocket (JoinError ''Game not found. Please check the Game ID.'')], s)
      | Inherited \<Rightarrow> (Emits [ToSocket (JoinError ''Failed to join game'')], s)
      | Own g \<Rightarrow>
          if length (players g) \<ge> 2
          then (Emits [ToSocket (JoinError ''Game is full. Please create a new game.'')], s)
          else
            let playerName = playerNameOf name rnd;
                g' = g\<lparr>players := players g @ [\<lparr>id_p = socket, username = playerName,
                                                  symbol = ''O'', disconnected = False\<rparr>],
                       status := ''in-progress''\<rparr>
            in (Emits [ToRoom gameId (GameStarted (players g') (board g') (currentPlayer g') gameId),
                       ToSocket (JoinSuccess ''O'' gameId)],
                s\<lparr>games := AList.update gameId g' (games s)\<rparr>))"

text \<open>
  The part of \<^verbatim>\<open>makeMove\<close> after validation: the write, the evaluation, and the update
  of \<^verbatim>\<open>winner\<close> or \<^verbatim>\<open>currentPlayer\<close>.
\<close>

definition applyMove :: "game \<Rightarrow> int \<Rightarrow> game" where
  "applyMove g cellIndex =
     (let b = cellSet (board g) cellIndex (Str (currentPlayer g));
          w = checkWinner b
      in if truthy w then g\<lparr>board := b, winner := w\<rparr>
         else g\<lparr>board := b,
                currentPlayer := (if currentPlayer g = ''X'' then ''O'' else ''X'')\<rparr>)"

text \<open>
  For an inherited value \<^verbatim>\<open>game.board[cellIndex]\<close> throws when \<^verbatim>\<open>game.board\<close> is
  undefined, and \<^verbatim>\<open>game.players.find\<close> always throws; both are caught by the handler.
\<close>

definition makeMove :: "string \<Rightarrow> string \<Rightarrow> int \<Rightarrow> server \<Rightarrow> outcome \<times> server" where
  "makeMove socket gameId cellIndex s =
     (case lookupGame s gameId of
        Missing \<Rightarrow> (Emits [ToSocket (MoveError ''Game not found'')], s)
      | Inherited \<Rightarrow>
          if inheritedHasBoard s gameId \<and> cellAt (replicate 9 Null) cellIndex \<noteq> Null
          then (Emits [ToSocket (MoveError ''Space already taken'')], s)
          else (Emits [ToSocket (MoveError ''Failed to make move'')], s)
      | Own g \<Rightarrow>
          if cellAt (board g) cellIndex \<noteq> Null
          then (Emits [ToSocket (MoveError ''Space already taken'')], s)
          else
            (case find (\<lambda>p. id_p p = socket) (players g) of
               None \<Rightarrow> (Emits [ToSocket (MoveError ''Not your turn'')], s)
             | Some p \<Rightarrow>
                 if symbol p \<noteq> currentPlayer g
                 then (Emits [ToSocket (MoveError ''Not your turn'')], s)
                 else
                   let g' = applyMove g cellIndex
                   in (Emits [ToRoom gameId
                                (MoveMade (board g') (readWinner s g') (currentPlayer g') gameId)],
                       s\<lparr>games := AList.update gameId g' (games s)\<rparr>)))"

text \<open>
  \<^verbatim>\<open>requestRematch\<close>. For an inherited value the four assignments go to that builtin
  object (they are ignored without error when it is a primitive string), and the handler
  reports success.
\<close>

definition resetGame :: "game \<Rightarrow> game" where
  "resetGame g = g\<lparr>board := replicate 9 Null, currentPlayer := ''X'', winner := Null,
                   status := ''in-progress''\<rparr>"

definition requestRematch :: "string \<Rightarrow> string \<Rightarrow> server \<Rightarrow> outcome \<times> server" where
  "requestRematch socket gameId s =
     (case lookupGame s gameId of
        Missing \<Rightarrow> (Emits [Ack (AckError ''Game not found'')], s)
      | Inherited \<Rightarrow>
          (Emits [ToRoom gameId (RematchAccepted (replicate 9 Null) ''X'' gameId), Ack AckSuccess],
           s\<lparr>rematched := gameId # rematched s\<rparr>)
      | Own g \<Rightarrow>
          let g' = resetGame g
          in (Emits [ToRoom gameId (RematchAccepted (board g') (currentPlayer g') gameId),
                     Ack AckSuccess],
              s\<lparr>games := AList.update gameId g' (games s)\<rparr>))"

text \<open>\<^verbatim>\<open>findIndex\<close>: \<open>None\<close> stands for \<^verbatim>\<open>-1\<close>.\<close>

fun findIndex :: "('a \<Rightarrow> bool) \<Rightarrow> 'a list \<Rightarrow> nat option" where
  "findIndex P [] = None"
| "findIndex P (x # xs) =
     (if P x then Some 0 else (case findIndex P xs of None \<Rightarrow> None | Some i \<Rightarrow> Some (Suc i)))"

text \<open>\<^verbatim>\<open>xs.splice(i, 1)\<close> for an index inside the array.\<close>

definition splice1 :: "nat \<Rightarrow> 'a list \<Rightarrow> 'a list" where
  "splice1 i xs = take i xs @ drop (Suc i) xs"

text \<open>
  The body shared by \<^verbatim>\<open>disconnect\<close> and \<^verbatim>\<open>leaveGame\<close> once the player index is
  found: remove the player, then notify \<^verbatim>\<open>players[0]\<close> or delete the session.
\<close>

definition removePlayerAt :: "string \<Rightarrow> game \<Rightarrow> nat \<Rightarrow> server \<Rightarrow> outcome \<times> server" where
  "removePlayerAt gameId g i s =
     (let g' = g\<lparr>players := splice1 i (players g)\<rparr>
      in case players g' of
           p # _ \<Rightarrow> (Emits [ToRoom (id_p p) PlayerLeft],
                     s\<lparr>games := AList.update gameId g' (games s)\<rparr>)
         | [] \<Rightarrow> (Emits [], s\<lparr>games := AList.delete gameId (games s)\<rparr>))"

text \<open>
  The \<^verbatim>\<open>for ... in\<close> loop of \<^verbatim>\<open>disconnect\<close> over the own keys: the first session, in
  insertion order, that has a player with this socket id.
\<close>

fun scanGames :: "string \<Rightarrow> (string \<times> game) list \<Rightarrow> (string \<times> game \<times> nat) option" where
  "scanGames socket [] = None"
| "scanGames socket ((gameId, g) # rest) =
     (case findIndex (\<lambda>p. id_p p = socket) (players g) of
        Some i \<Rightarrow> Some (gameId, g, i)
      | None \<Rightarrow> scanGames socket rest)"

text \<open>
  When no own session matches, the loop goes on to the enumerable inherited properties.
  There are none unless \<^verbatim>\<open>Object.prototype\<close> is polluted; then the first one is the
  inherited \<^verbatim>\<open>board\<close>, an array without \<^verbatim>\<open>players\<close>, where
  \<^verbatim>\<open>undefined !== -1\<close> holds and \<^verbatim>\<open>game.players.splice\<close> throws outside any
  \<^verbatim>\<open>try\<close> block.
\<close>

definition disconnect :: "string \<Rightarrow> server \<Rightarrow> outcome \<times> server" where
  "disconnect socket s =
     (case scanGames socket (games s) of
        Some (gameId, g, i) \<Rightarrow> removePlayerAt gameId g i s
      | None \<Rightarrow> if prototypePolluted s then (UncaughtTypeError, s) else (Emits [], s))"

text \<open>
  \<^verbatim>\<open>leaveGame\<close> has no \<^verbatim>\<open>try\<close> block: for an inherited value
  \<^verbatim>\<open>game.players.findIndex\<close> throws uncaught.
\<close>

definition leaveGame :: "string \<Rightarrow> string \<Rightarrow> server \<Rightarrow> outcome \<times> server" where
  "leaveGame socket gameId s =
     (case lookupGame s gameId of
        Missing \<Rightarrow> (Emits [], s)
      | Inherited \<Rightarrow> (UncaughtTypeError, s)
      | Own g \<Rightarrow>
          (case findIndex (\<lambda>p. id_p p = socket) (players g) of
             None \<Rightarrow> (Emits [], s)
           | Some i \<Rightarrow> removePlayerAt gameId g i s))"

section \<open>Events and reachable states\<close>

datatype event =
    CreateGame string string string nat
  | JoinGame string string string nat
  | MakeMove string string int
  | RequestRematch string string
  | Disconnect string
  | LeaveGame string string

fun step :: "event \<Rightarrow> server \<Rightarrow> outcome \<times> server" where
  "step (CreateGame socket name token rnd) s = createGame socket name token rnd s"
| "step (JoinGame socket gameId name rnd) s = joinGame socket gameId name rnd s"
| "step (MakeMove socket gameId cellIndex) s = makeMove socket gameId cellIndex s"
| "step (RequestRematch socket gameId) s = requestRematch socket gameId s"
| "step (Disconnect socket) s = disconnect socket s"
| "step (LeaveGame socket gameId) s = leaveGame socket gameId s"

text \<open>
  The state after a sequence of events handled one after the other. An uncaught
  \<^verbatim>\<open>TypeError\<close> ends the process; the handlers that throw one have not written to the
  state before, and the run goes on from that state, which only adds reachable states.
\<close>

fun run :: "server \<Rightarrow> event list \<Rightarrow> server" where
  "run s [] = s"
| "run s (e # es) = run (snd (step e s)) es"

inductive reachable :: "server \<Rightarrow> bool" where
  initial: "reachable initialServer"
| handled: "reachable s \<Longrightarrow> reachable (snd (step e s))"

section \<open>Vocabulary of the specification\<close>

text \<open>
  The eight triples as the specification names them: three rows, three columns, two
  diagonals, over the cells numbered row by row.
\<close>

definition rows :: "(int \<times> int \<times> int) list" where
  "rows = map (\<lambda>r. (3 * r, 3 * r + 1, 3 * r + 2)) [0, 1, 2]"

definition columns :: "(int \<times> int \<times> int) list" where
  "columns = map (\<lambda>c. (c, c + 3, c + 6)) [0, 1, 2]"

definition diagonals :: "(int \<times> int \<times> int) list" where
  "diagonals = [(0, 4, 8), (2, 4, 6)]"

text \<open>A triple is uniformly the symbol \<open>s\<close>.\<close>

fun uniformly :: "jsval list \<Rightarrow> string \<Rightarrow> int \<times> int \<times> int \<Rightarrow> bool" where
  "uniformly b s (i, j, k) = (cellAt b i = Str s \<and> cellAt b j = Str s \<and> cellAt b k = Str s)"

text \<open>No triple is uniformly \<^verbatim>\<open>X\<close> or uniformly \<^verbatim>\<open>O\<close>.\<close>

definition noTripleWins :: "jsval list \<Rightarrow> bool" where
  "noTripleWins b =
     (\<forall>t \<in> set (rows @ columns @ diagonals). \<not> uniformly b ''X'' t \<and> \<not> uniformly b ''O'' t)"

text \<open>A board of the data model: nine cells, each empty, \<^verbatim>\<open>X\<close> or \<^verbatim>\<open>O\<close>.\<close>

definition boardOk :: "jsval list \<Rightarrow> bool" where
  "boardOk b = (length b = 9 \<and> set b \<subseteq> {Null, Str ''X'', Str ''O''})"

text \<open>\<open>winner = none\<close>: the property is absent or \<^verbatim>\<open>null\<close>.\<close>

definition noWinner :: "game \<Rightarrow> bool" where
  "noWinner g = (winner g = Undefined \<or> winner g = Null)"

text \<open>The participant that \<^verbatim>\<open>makeMove\<close> recognises for a socket: the first one with its id.\<close>

definition participant :: "game \<Rightarrow> string \<Rightarrow> player option" where
  "participant g socket = find (\<lambda>p. id_p p = socket) (players g)"

text \<open>
  The specification's removal of a participant: the player list without the first
  participant that has the given connection id.
\<close>

fun withoutFirst :: "string \<Rightarrow> player list \<Rightarrow> player list" where
  "withoutFirst socket [] = []"
| "withoutFirst socket (p # ps) = (if id_p p = socket then ps else p # withoutFirst socket ps)"

text \<open>A connection is a participant of a session.\<close>

definition isParticipant :: "game \<Rightarrow> string \<Rightarrow> bool" where
  "isParticipant g socket = (socket \<in> id_p ` set (players g))"

text \<open>The error replies, by the names the specification gives them.\<close>

definition joinNotFound :: outcome where
  "joinNotFound = Emits [ToSocket (JoinError ''Game not found. Please check the Game ID.'')]"

definition joinFull :: outcome where
  "joinFull = Emits [ToSocket (JoinError ''Game is full. Please create a new game.'')]"

definition moveNotFound :: outcome where
  "moveNotFound = Emits [ToSocket (MoveError ''Game not found'')]"

definition moveCellTaken :: outcome where
  "moveCellTaken = Emits [ToSocket (MoveError ''Space already taken'')]"

definition moveNotYourTurn :: outcome where
  "moveNotYourTurn = Emits [ToSocket (MoveError ''Not your turn'')]"

definition rematchNotFound :: outcome where
  "rematchNotFound = Emits [Ack (AckError ''Game not found'')]"

section \<open>Invariants of the reachable states\<close>

text \<open>
  What every session record of a reachable state satisfies: a board of the data model;
  a turn and a status among the two values the program assigns to each; one or two
  players, one while the status is \<^verbatim>\<open>waiting\<close>; a winner that is absent, \<^verbatim>\<open>null\<close>,
  \<^verbatim>\<open>'Tie'\<close> on a full board, or the symbol whose turn it still is; and winning patterns
  that all hold the symbol of \<^verbatim>\<open>currentPlayer\<close>, one of them at least once that symbol
  has won.
\<close>

definition gameOk :: "game \<Rightarrow> bool" where
  "gameOk g =
     (boardOk (board g)
      \<and> (currentPlayer g = ''X'' \<or> currentPlayer g = ''O'')
      \<and> (status g = ''waiting'' \<or> status g = ''in-progress'')
      \<and> players g \<noteq> [] \<and> length (players g) \<le> 2
      \<and> (status g = ''waiting'' \<longrightarrow> length (players g) = 1)
      \<and> (noWinner g \<or> winner g = Str ''Tie'' \<or> winner g = Str (currentPlayer g))
      \<and> (winner g = Str ''Tie'' \<longrightarrow> Null \<notin> set (board g))
      \<and> (\<forall>t \<in> set winPatterns.
            patternWins (board g) t \<longrightarrow> cellAt (board g) (fst t) = Str (currentPlayer g))
      \<and> (winner g = Str (currentPlayer g) \<longrightarrow> (\<exists>t \<in> set winPatterns. patternWins (board g) t)))"

text \<open>The ids of the program's own sessions all start with \<^verbatim>\<open>game_\<close>.\<close>

definition serverOk :: "server \<Rightarrow> bool" where
  "serverOk s =
     (distinct (map fst (games s))
      \<and> (\<forall>(gameId, g) \<in> set (games s). take 5 gameId = ''game_'' \<and> gameOk g))"

section \<open>Example runs\<close>

text \<open>Two sockets: one creates a session, the other joins it.\<close>

definition exStarted :: server where
  "exStarted = run initialServer
     [CreateGame ''sockA'' ''ann'' ''k3f9x2a1b'' 0,
      JoinGame ''sockB'' ''game_k3f9x2a1b'' ''bob'' 0]"

text \<open>Five moves later \<^verbatim>\<open>X\<close> has completed the first row.\<close>

definition exWon :: server where
  "exWon = run exStarted
     [MakeMove ''sockA'' ''game_k3f9x2a1b'' 0, MakeMove ''sockB'' ''game_k3f9x2a1b'' 3,
      MakeMove ''sockA'' ''game_k3f9x2a1b'' 1, MakeMove ''sockB'' ''game_k3f9x2a1b'' 4,
      MakeMove ''sockA'' ''game_k3f9x2a1b'' 2]"

text \<open>The two participants and the session record of \<open>exStarted\<close>.\<close>

definition exPlayerA :: player where
  "exPlayerA = \<lparr>id_p = ''sockA'', username = ''ann'', symbol = ''X'', disconnected = False\<rparr>"

definition exPlayerB :: player where
  "exPlayerB = \<lparr>id_p = ''sockB'', username = ''bob'', symbol = ''O'', disconnected = False\<rparr>"

definition exGame :: game where
  "exGame = \<lparr>players = [exPlayerA, exPlayerB],
             board = [Null, Null, Null, Null, Null, Null, Null, Null, Null],
             currentPlayer = ''X'', status = ''in-progress'', winner = Undefined\<rparr>"

text \<open>The session record of \<open>exWon\<close>.\<close>

definition exGameWon :: game where
  "exGameWon = \<lparr>players = [exPlayerA, exPlayerB],
                board = [Str ''X'', Str ''X'', Str ''X'', Str ''O'', Str ''O'', Null, Null, Null, Null],
                currentPlayer = ''X'', status = ''in-progress'', winner = Str ''X''\<rparr>"

text \<open>Then the second participant disconnects.\<close>

definition exLeft :: server where
  "exLeft = run exWon [Disconnect ''sockB'']"

definition exGameLeft :: game where
  "exGameLeft = \<lparr>players = [exPlayerA],
                 board = [Str ''X'', Str ''X'', Str ''X'', Str ''O'', Str ''O'', Null, Null, Null, Null],
                 currentPlayer = ''X'', status = ''in-progress'', winner = Str ''X''\<rparr>"

section \<open>Board logic: proofs\<close>

subsection \<open>The scan over the patterns\<close>

lemma scanPatterns_None:
  "scanPatterns b ps = None \<longleftrightarrow> (\<forall>t \<in> set ps. \<not> patternWins b t)"
  by (induction ps) auto

lemma scanPatterns_Some:
  "scanPatterns b ps = Some w \<longleftrightarrow>
     (\<exists>pre t post. ps = pre @ t # post \<and> patternWins b t \<and> w = cellAt b (fst t)
        \<and> (\<forall>u \<in> set pre. \<not> patternWins b u))"
proof (induction ps)
  case Nil
  then show ?case by simp
next
  case (Cons p ps)
  let ?P = "\<lambda>qs. \<exists>pre t post. qs = pre @ t # post \<and> patternWins b t \<and> w = cellAt b (fst t)
        \<and> (\<forall>u \<in> set pre. \<not> patternWins b u)"
  show ?case
  proof (cases "patternWins b p")
    case True
    have "?P (p # ps) \<longleftrightarrow> w = cellAt b (fst p)"
    proof
      assume "?P (p # ps)"
      then obtain pre t post where h: "p # ps = pre @ t # post" "w = cellAt b (fst t)"
        "\<forall>u \<in> set pre. \<not> patternWins b u" by blast
      from h(1) h(3) True have "pre = []" by (cases pre) auto
      with h show "w = cellAt b (fst p)" by simp
    next
      assume "w = cellAt b (fst p)"
      with True have "p # ps = [] @ p # ps \<and> patternWins b p \<and> w = cellAt b (fst p)
        \<and> (\<forall>u \<in> set []. \<not> patternWins b u)" by simp
      then show "?P (p # ps)" by blast
    qed
    with True show ?thesis by auto
  next
    case False
    have "?P (p # ps) \<longleftrightarrow> ?P ps"
    proof
      assume "?P (p # ps)"
      then obtain pre t post where h: "p # ps = pre @ t # post" "patternWins b t"
        "w = cellAt b (fst t)" "\<forall>u \<in> set pre. \<not> patternWins b u" by blast
      from h(1) h(2) False obtain pre' where "pre = p # pre'" by (cases pre) auto
      with h have "ps = pre' @ t # post \<and> patternWins b t \<and> w = cellAt b (fst t)
        \<and> (\<forall>u \<in> set pre'. \<not> patternWins b u)" by simp
      then show "?P ps" by blast
    next
      assume "?P ps"
      then obtain pre t post where h: "ps = pre @ t # post" "patternWins b t"
        "w = cellAt b (fst t)" "\<forall>u \<in> set pre. \<not> patternWins b u" by blast
      with False have "p # ps = (p # pre) @ t # post \<and> patternWins b t \<and> w = cellAt b (fst t)
        \<and> (\<forall>u \<in> set (p # pre). \<not> patternWins b u)" by simp
      then show "?P (p # ps)" by blast
    qed
    with False Cons.IH show ?thesis by simp
  qed
qed

lemma scanPatterns_SomeD:
  "scanPatterns b ps = Some w \<Longrightarrow> \<exists>t \<in> set ps. patternWins b t \<and> w = cellAt b (fst t)"
  unfolding scanPatterns_Some by auto

lemma winPatterns_order: "winPatterns = rows @ columns @ diagonals"
  by (simp add: winPatterns_def rows_def columns_def diagonals_def)

subsection \<open>Cells of a board of the data model\<close>

lemma cellAt_cases:
  assumes "set b \<subseteq> {Null, Str ''X'', Str ''O''}"
  shows "cellAt b i \<in> {Undefined, Null, Str ''X'', Str ''O''}"
proof (cases "0 \<le> i \<and> i < int (length b)")
  case True
  then have "nat i < length b" by auto
  then have "b ! nat i \<in> set b" by simp
  with assms True show ?thesis by (auto simp: cellAt_def)
next
  case False
  then show ?thesis by (auto simp: cellAt_def)
qed

lemma patternWins_uniformly:
  assumes "set b \<subseteq> {Null, Str ''X'', Str ''O''}"
  shows "patternWins b t \<longleftrightarrow> uniformly b ''X'' t \<or> uniformly b ''O'' t"
proof -
  obtain i j k where t: "t = (i, j, k)" by (cases t)
  from cellAt_cases[OF assms, of i]
  show ?thesis unfolding t by auto
qed

lemma patternWins_value:
  "s \<noteq> [] \<Longrightarrow> patternWins b t \<and> Str s = cellAt b (fst t) \<longleftrightarrow> uniformly b s t"
  by (cases t) auto

lemma scan_None_noTripleWins:
  assumes "set b \<subseteq> {Null, Str ''X'', Str ''O''}"
  shows "scanPatterns b winPatterns = None \<longleftrightarrow> noTripleWins b"
  unfolding scanPatterns_None winPatterns_order noTripleWins_def
    patternWins_uniformly[OF assms] by blast

lemma scan_Some_symbol:
  assumes "set b \<subseteq> {Null, Str ''X'', Str ''O''}" and "scanPatterns b winPatterns = Some w"
  shows "w = Str ''X'' \<or> w = Str ''O''"
proof -
  from scanPatterns_SomeD[OF assms(2)]
  obtain t where "patternWins b t" "w = cellAt b (fst t)" by blast
  then show ?thesis unfolding patternWins_uniformly[OF assms(1)] by (cases t) auto
qed

subsection \<open>The outcome of \<^verbatim>\<open>checkWinner\<close>\<close>

text \<open>
  On a board where only one symbol holds a triple, \<^verbatim>\<open>checkWinner\<close> returns that symbol.
\<close>

lemma checkWinner_only_symbol:
  assumes cells: "set b \<subseteq> {Null, Str ''X'', Str ''O''}"
    and s: "s = ''X'' \<and> s' = ''O'' \<or> s = ''O'' \<and> s' = ''X''"
    and none: "\<forall>t \<in> set (rows @ columns @ diagonals). \<not> uniformly b s' t"
  shows "checkWinner b = Str s \<longleftrightarrow> (\<exists>t \<in> set (rows @ columns @ diagonals). uniformly b s t)"
proof
  assume cw: "checkWinner b = Str s"
  from s have "s \<noteq> ''Tie''" and ne: "s \<noteq> []" by auto
  with cw have "scanPatterns b winPatterns = Some (Str s)"
    by (auto simp: checkWinner_def split: option.splits if_splits)
  from scanPatterns_SomeD[OF this] obtain t where
    t: "t \<in> set winPatterns" "patternWins b t \<and> Str s = cellAt b (fst t)" by blast
  from t(2) have "uniformly b s t" unfolding patternWins_value[OF ne] .
  with t(1) show "\<exists>t \<in> set (rows @ columns @ diagonals). uniformly b s t"
    unfolding winPatterns_order by blast
next
  assume "\<exists>t \<in> set (rows @ columns @ diagonals). uniformly b s t"
  then obtain t where t: "t \<in> set winPatterns" "uniformly b s t"
    unfolding winPatterns_order by blast
  from s have ne: "s \<noteq> []" and ne': "s' \<noteq> []" by auto
  from t(2) have "patternWins b t" using patternWins_value[OF ne, of b t] by blast
  with t(1) have "scanPatterns b winPatterns \<noteq> None" by (auto simp: scanPatterns_None)
  then obtain w where w: "scanPatterns b winPatterns = Some w" by auto
  from scanPatterns_SomeD[OF w] obtain u where
    u: "u \<in> set winPatterns" "patternWins b u" "w = cellAt b (fst u)" by blast
  have "w \<noteq> Str s'"
  proof
    assume "w = Str s'"
    with u have "patternWins b u \<and> Str s' = cellAt b (fst u)" by simp
    then have "uniformly b s' u" unfolding patternWins_value[OF ne'] .
    with none u(1) show False unfolding winPatterns_order by blast
  qed
  with scan_Some_symbol[OF cells w] s have "w = Str s" by auto
  with w show "checkWinner b = Str s" by (simp add: checkWinner_def)
qed

text \<open>
  Claim C1. For every board of nine cells, each empty, \<^verbatim>\<open>X\<close> or \<^verbatim>\<open>O\<close>:
  \<^verbatim>\<open>checkWinner\<close> returns the symbol \<open>s\<close> exactly when some triple is uniformly \<open>s\<close>
  and no triple before it, in the order rows, columns, diagonals, is uniformly a symbol
  (so the winner is that of the first winning triple); where the other symbol holds no
  triple, it returns \<open>s\<close> exactly when some triple is uniformly \<open>s\<close>; it returns
  \<^verbatim>\<open>'Tie'\<close> exactly when no cell is empty and no triple wins; it returns \<^verbatim>\<open>null\<close>
  exactly when some cell is empty and no triple wins; and it returns nothing else.
\<close>

theorem checkWinner_outcome:
  assumes "boardOk b"
  shows "(\<forall>s \<in> {''X'', ''O''}.
            checkWinner b = Str s \<longleftrightarrow>
              (\<exists>pre t post. rows @ columns @ diagonals = pre @ t # post \<and> uniformly b s t \<and>
                 (\<forall>u \<in> set pre. \<not> uniformly b ''X'' u \<and> \<not> uniformly b ''O'' u)))
       \<and> ((\<forall>t \<in> set (rows @ columns @ diagonals). \<not> uniformly b ''O'' t) \<longrightarrow>
            (checkWinner b = Str ''X'' \<longleftrightarrow>
               (\<exists>t \<in> set (rows @ columns @ diagonals). uniformly b ''X'' t)))
       \<and> ((\<forall>t \<in> set (rows @ columns @ diagonals). \<not> uniformly b ''X'' t) \<longrightarrow>
            (checkWinner b = Str ''O'' \<longleftrightarrow>
               (\<exists>t \<in> set (rows @ columns @ diagonals). uniformly b ''O'' t)))
       \<and> (checkWinner b = Str ''Tie'' \<longleftrightarrow> Null \<notin> set b \<and> noTripleWins b)
       \<and> (checkWinner b = Null \<longleftrightarrow> Null \<in> set b \<and> noTripleWins b)
       \<and> (checkWinner b = Str ''X'' \<or> checkWinner b = Str ''O'' \<or> checkWinner b = Str ''Tie''
            \<or> checkWinner b = Null)"
proof -
  let ?lines = "rows @ columns @ diagonals"
  from assms have cells: "set b \<subseteq> {Null, Str ''X'', Str ''O''}" by (simp add: boardOk_def)
  note pw = patternWins_uniformly[OF cells]
  note none = scan_None_noTripleWins[OF cells]
  note some = scan_Some_symbol[OF cells]
  have win: "checkWinner b = Str s \<longleftrightarrow>
      (\<exists>pre t post. ?lines = pre @ t # post \<and> uniformly b s t \<and>
         (\<forall>u \<in> set pre. \<not> uniformly b ''X'' u \<and> \<not> uniformly b ''O'' u))"
    if s: "s \<in> {''X'', ''O''}" for s
  proof -
    from s have ne: "s \<noteq> []" and nt: "s \<noteq> ''Tie''" by auto
    have "checkWinner b = Str s \<longleftrightarrow> scanPatterns b winPatterns = Some (Str s)"
      using nt by (auto simp: checkWinner_def split: option.splits)
    also have "\<dots> \<longleftrightarrow> (\<exists>pre t post. ?lines = pre @ t # post \<and>
         (patternWins b t \<and> Str s = cellAt b (fst t)) \<and> (\<forall>u \<in> set pre. \<not> patternWins b u))"
      by (simp only: scanPatterns_Some winPatterns_order conj_assoc)
    also have "\<dots> \<longleftrightarrow> (\<exists>pre t post. ?lines = pre @ t # post \<and> uniformly b s t \<and>
         (\<forall>u \<in> set pre. \<not> uniformly b ''X'' u \<and> \<not> uniformly b ''O'' u))"
      unfolding patternWins_value[OF ne] by (simp only: pw de_Morgan_disj)
    finally show ?thesis .
  qed
  then have win': "\<forall>s \<in> {''X'', ''O''}.
            checkWinner b = Str s \<longleftrightarrow>
              (\<exists>pre t post. ?lines = pre @ t # post \<and> uniformly b s t \<and>
                 (\<forall>u \<in> set pre. \<not> uniformly b ''X'' u \<and> \<not> uniformly b ''O'' u))"
    by (rule ballI)
  have onlyX: "(\<forall>t \<in> set ?lines. \<not> uniformly b ''O'' t) \<longrightarrow>
            (checkWinner b = Str ''X'' \<longleftrightarrow> (\<exists>t \<in> set ?lines. uniformly b ''X'' t))"
    using checkWinner_only_symbol[OF cells, of "''X''" "''O''"] by blast
  have onlyO: "(\<forall>t \<in> set ?lines. \<not> uniformly b ''X'' t) \<longrightarrow>
            (checkWinner b = Str ''O'' \<longleftrightarrow> (\<exists>t \<in> set ?lines. uniformly b ''O'' t))"
    using checkWinner_only_symbol[OF cells, of "''O''" "''X''"] by blast
  have tie: "checkWinner b = Str ''Tie'' \<longleftrightarrow> Null \<notin> set b \<and> noTripleWins b"
    using some none by (auto simp: checkWinner_def split: option.splits)
  have nul: "checkWinner b = Null \<longleftrightarrow> Null \<in> set b \<and> noTripleWins b"
    using some none by (auto simp: checkWinner_def split: option.splits)
  have rng: "checkWinner b = Str ''X'' \<or> checkWinner b = Str ''O'' \<or> checkWinner b = Str ''Tie''
            \<or> checkWinner b = Null"
    using some by (auto simp: checkWinner_def split: option.splits)
  show ?thesis
    by (rule conjI[OF win' conjI[OF onlyX conjI[OF onlyO conjI[OF tie conjI[OF nul rng]]]]])
qed

text \<open>
  The board \<^verbatim>\<open>[X,X,X,_,O,O,_,_,_]\<close> of the specification: the first row wins for
  \<^verbatim>\<open>X\<close>.
\<close>

theorem checkWinner_outcome_witness:
  "boardOk [Str ''X'', Str ''X'', Str ''X'', Null, Str ''O'', Str ''O'', Null, Null, Null]
   \<and> checkWinner [Str ''X'', Str ''X'', Str ''X'', Null, Str ''O'', Str ''O'', Null, Null, Null] = Str ''X''
   \<and> (\<exists>pre t post. rows @ columns @ diagonals = pre @ t # post
        \<and> uniformly [Str ''X'', Str ''X'', Str ''X'', Null, Str ''O'', Str ''O'', Null, Null, Null] ''X'' t
        \<and> (\<forall>u \<in> set pre.
              \<not> uniformly [Str ''X'', Str ''X'', Str ''X'', Null, Str ''O'', Str ''O'', Null, Null, Null] ''X'' u
            \<and> \<not> uniformly [Str ''X'', Str ''X'', Str ''X'', Null, Str ''O'', Str ''O'', Null, Null, Null] ''O'' u))"
proof -
  let ?b = "[Str ''X'', Str ''X'', Str ''X'', Null, Str ''O'', Str ''O'', Null, Null, Null]"
  have h: "boardOk ?b" by (simp add: boardOk_def)
  have cw: "checkWinner ?b = Str ''X''"
    by (simp add: checkWinner_def winPatterns_def cellAt_def)
  from checkWinner_outcome[OF h] cw h show ?thesis by blast
qed

text \<open>The full board \<^verbatim>\<open>[X,O,X,X,O,O,O,X,X]\<close> of the specification is a tie.\<close>

lemma checkWinner_tie_example:
  "checkWinner [Str ''X'', Str ''O'', Str ''X'', Str ''X'', Str ''O'', Str ''O'', Str ''O'', Str ''X'', Str ''X'']
     = Str ''Tie''"
  by (simp add: checkWinner_def winPatterns_def cellAt_def)

section \<open>The store and the invariants: proofs\<close>

subsection \<open>Reading and writing cells\<close>

lemma cellAt_Null_in_range:
  "cellAt b i = Null \<Longrightarrow> 0 \<le> i \<and> i < int (length b)"
  by (auto simp: cellAt_def split: if_splits)

lemma cellAt_Null_in_set:
  assumes "cellAt b i = Null"
  shows "Null \<in> set b"
proof -
  from assms have r: "0 \<le> i" "i < int (length b)" and v: "b ! nat i = Null"
    by (auto simp: cellAt_def split: if_splits)
  from r have "nat i < length b" by auto
  then have "b ! nat i \<in> set b" by (rule nth_mem)
  with v show ?thesis by simp
qed

lemma cellSet_in_range:
  "0 \<le> i \<Longrightarrow> i < int (length b) \<Longrightarrow> cellSet b i v = b[nat i := v]"
  by (simp add: cellSet_def)

lemma length_cellSet_in_range:
  "0 \<le> i \<Longrightarrow> i < int (length b) \<Longrightarrow> length (cellSet b i v) = length b"
  by (simp add: cellSet_def)

lemma cellAt_cellSet:
  "0 \<le> i \<Longrightarrow> i < int (length b) \<Longrightarrow>
     cellAt (cellSet b i v) j = (if j = i then v else cellAt b j)"
  by (auto simp: cellSet_def cellAt_def nth_list_update)

lemma set_cellSet_subset:
  "0 \<le> i \<Longrightarrow> i < int (length b) \<Longrightarrow> set (cellSet b i v) \<subseteq> insert v (set b)"
  by (simp add: cellSet_def set_update_subset_insert)

text \<open>A winning pattern after a write either holds the written value or won before.\<close>

lemma patternWins_cellSet:
  assumes "0 \<le> i" "i < int (length b)" "patternWins (cellSet b i v) t"
  shows "cellAt (cellSet b i v) (fst t) = v
         \<or> (patternWins b t \<and> cellAt (cellSet b i v) (fst t) = cellAt b (fst t))"
proof -
  obtain x y z where t: "t = (x, y, z)" by (cases t)
  from assms(3) show ?thesis
    unfolding t by (auto simp: cellAt_cellSet[OF assms(1,2)] split: if_splits)
qed

text \<open>A pattern that wins keeps winning when an empty cell is written.\<close>

lemma patternWins_persists:
  assumes "cellAt b i = Null" "patternWins b t"
  shows "patternWins (cellSet b i v) t"
proof -
  obtain x y z where t: "t = (x, y, z)" by (cases t)
  from cellAt_Null_in_range[OF assms(1)] have r: "0 \<le> i" "i < int (length b)" by auto
  from assms show ?thesis
    unfolding t by (auto simp: cellAt_cellSet[OF r])
qed

subsection \<open>The store\<close>

lemma set_update_subset: "set (AList.update k v al) \<subseteq> insert (k, v) (set al)"
  by (induction al) auto

lemma set_delete_subset: "set (AList.delete k al) \<subseteq> set al"
  by (auto simp: AList.delete_eq)

lemma lookupGame_Own: "lookupGame s k = Own g \<longleftrightarrow> map_of (games s) k = Some g"
  by (auto simp: lookupGame_def split: option.splits)

lemma lookupGame_Own_mem: "lookupGame s k = Own g \<Longrightarrow> (k, g) \<in> set (games s)"
  by (simp add: lookupGame_Own map_of_SomeD)

lemma serverOk_gameOk: "serverOk s \<Longrightarrow> (k, g) \<in> set (games s) \<Longrightarrow> gameOk g"
  by (auto simp: serverOk_def)

lemma serverOk_key: "serverOk s \<Longrightarrow> (k, g) \<in> set (games s) \<Longrightarrow> take 5 k = ''game_''"
  by (auto simp: serverOk_def)

lemma serverOk_update:
  assumes "serverOk s" "gameOk g" "take 5 k = ''game_''"
  shows "serverOk (s\<lparr>games := AList.update k g (games s)\<rparr>)"
  using assms set_update_subset[of k g "games s"]
  by (auto simp: serverOk_def AList.distinct_update)

lemma serverOk_delete:
  assumes "serverOk s"
  shows "serverOk (s\<lparr>games := AList.delete k (games s)\<rparr>)"
  using assms set_delete_subset[of k "games s"]
  by (auto simp: serverOk_def AList.distinct_delete)

lemma serverOk_rematched:
  "serverOk (s\<lparr>rematched := r\<rparr>) = serverOk s"
  by (simp add: serverOk_def)

subsection \<open>Each operation on a session record keeps the invariant\<close>

lemma gameOk_applyMove:
  assumes ok: "gameOk g" and empty: "cellAt (board g) i = Null"
  shows "gameOk (applyMove g i)"
proof -
  let ?b = "board g" and ?cp = "currentPlayer g"
  let ?b' = "cellSet ?b i (Str ?cp)"
  from cellAt_Null_in_range[OF empty] have r: "0 \<le> i" "i < int (length ?b)" by auto
  from ok have cp: "?cp = ''X'' \<or> ?cp = ''O''" and bok: "boardOk ?b"
    and J: "\<forall>t \<in> set winPatterns. patternWins ?b t \<longrightarrow> cellAt ?b (fst t) = Str ?cp"
    and K: "winner g = Str ?cp \<longrightarrow> (\<exists>t \<in> set winPatterns. patternWins ?b t)"
    and W: "noWinner g \<or> winner g = Str ''Tie'' \<or> winner g = Str ?cp"
    and T: "winner g = Str ''Tie'' \<longrightarrow> Null \<notin> set ?b"
    and rest: "status g = ''waiting'' \<or> status g = ''in-progress''" "players g \<noteq> []"
      "length (players g) \<le> 2" "status g = ''waiting'' \<longrightarrow> length (players g) = 1"
    by (simp_all add: gameOk_def)
  have bok': "boardOk ?b'"
    using bok cp set_cellSet_subset[OF r, of "Str ?cp"] length_cellSet_in_range[OF r, of "Str ?cp"]
    by (auto simp: boardOk_def)
  have J': "\<forall>t \<in> set winPatterns. patternWins ?b' t \<longrightarrow> cellAt ?b' (fst t) = Str ?cp"
  proof (intro ballI impI)
    fix t assume t: "t \<in> set winPatterns" and w: "patternWins ?b' t"
    from patternWins_cellSet[OF r w] J t show "cellAt ?b' (fst t) = Str ?cp" by auto
  qed
  have notTie: "winner g \<noteq> Str ''Tie''"
    using T cellAt_Null_in_set[OF empty] by auto
  show ?thesis
  proof (cases "scanPatterns ?b' winPatterns")
    case (Some w)
    from scanPatterns_SomeD[OF Some] J' have w: "w = Str ?cp" and ex: "\<exists>t \<in> set winPatterns. patternWins ?b' t"
      by auto
    from Some w have cw: "checkWinner ?b' = Str ?cp" by (simp add: checkWinner_def)
    from cp have "truthy (Str ?cp)" by auto
    with cw have am: "applyMove g i = g\<lparr>board := ?b', winner := Str ?cp\<rparr>"
      by (simp add: applyMove_def Let_def)
    show ?thesis
      unfolding am gameOk_def using bok' cp rest J' ex by (auto simp: noWinner_def)
  next
    case None
    then have nowin: "\<forall>t \<in> set winPatterns. \<not> patternWins ?b' t"
      by (simp add: scanPatterns_None)
    have nowin_before: "\<forall>t \<in> set winPatterns. \<not> patternWins ?b t"
      using nowin patternWins_persists[OF empty] by blast
    with K have notCp: "winner g \<noteq> Str ?cp" by blast
    from W notTie notCp have nw: "noWinner g" by blast
    show ?thesis
    proof (cases "Null \<in> set ?b'")
      case True
      with None have cw: "checkWinner ?b' = Null" by (simp add: checkWinner_def)
      then have am: "applyMove g i =
          g\<lparr>board := ?b', currentPlayer := (if ?cp = ''X'' then ''O'' else ''X'')\<rparr>"
        by (simp add: applyMove_def Let_def)
      show ?thesis
        unfolding am gameOk_def using bok' rest nowin nw by (auto simp: noWinner_def)
    next
      case False
      with None have cw: "checkWinner ?b' = Str ''Tie''" by (simp add: checkWinner_def)
      then have am: "applyMove g i = g\<lparr>board := ?b', winner := Str ''Tie''\<rparr>"
        by (simp add: applyMove_def Let_def)
      show ?thesis
        unfolding am gameOk_def using bok' cp rest nowin False by (auto simp: noWinner_def)
    qed
  qed
qed

lemma not_patternWins_empty: "\<not> patternWins (replicate 9 Null) t"
proof -
  obtain x y z where t: "t = (x, y, z)" by (cases t)
  have "cellAt (replicate 9 Null) x = Null \<or> cellAt (replicate 9 Null) x = Undefined"
    by (auto simp: cellAt_def)
  then show ?thesis unfolding t by auto
qed

lemma boardOk_empty: "boardOk (replicate 9 Null)"
  by (auto simp: boardOk_def)

lemma gameOk_resetGame:
  assumes "gameOk g"
  shows "gameOk (resetGame g)"
  using assms boardOk_empty not_patternWins_empty
  by (auto simp: gameOk_def resetGame_def noWinner_def)

lemma gameOk_new:
  "gameOk \<lparr>players = [p], board = replicate 9 Null, currentPlayer = ''X'',
           status = ''waiting'', winner = Undefined\<rparr>"
  using boardOk_empty not_patternWins_empty
  by (auto simp: gameOk_def noWinner_def)

lemma gameOk_join:
  assumes "gameOk g" "\<not> 2 \<le> length (players g)"
  shows "gameOk (g\<lparr>players := players g @ [p], status := ''in-progress''\<rparr>)"
  using assms by (auto simp: gameOk_def noWinner_def)

lemma length_splice1:
  "i < length xs \<Longrightarrow> length (splice1 i xs) = length xs - 1"
  by (auto simp: splice1_def)

lemma findIndex_Some_less:
  "findIndex P xs = Some i \<Longrightarrow> i < length xs"
  by (induction xs arbitrary: i) (auto split: if_splits option.splits)

lemma gameOk_remove:
  assumes "gameOk g" "i < length (players g)" "splice1 i (players g) \<noteq> []"
  shows "gameOk (g\<lparr>players := splice1 i (players g)\<rparr>)"
proof -
  from assms(2) have l: "length (splice1 i (players g)) = length (players g) - 1"
    by (rule length_splice1)
  from assms(3) have "length (splice1 i (players g)) \<noteq> 0" by simp
  with l have "2 \<le> length (players g)" by linarith
  with assms(1) l assms(3) show ?thesis
    by (auto simp: gameOk_def noWinner_def)
qed

subsection \<open>Each handler keeps the invariant\<close>

lemma serverOk_createGame:
  "serverOk s \<Longrightarrow> serverOk (snd (createGame socket name token rnd s))"
  by (simp add: createGame_def Let_def serverOk_update gameOk_new)

lemma serverOk_joinGame:
  assumes "serverOk s"
  shows "serverOk (snd (joinGame socket gameId name rnd s))"
proof (cases "lookupGame s gameId")
  case (Own g)
  from lookupGame_Own_mem[OF Own] assms have g: "gameOk g" and k: "take 5 gameId = ''game_''"
    by (auto dest: serverOk_gameOk serverOk_key)
  show ?thesis
    using Own assms g k
    by (auto simp: joinGame_def Let_def intro!: serverOk_update gameOk_join)
qed (use assms in \<open>simp_all add: joinGame_def\<close>)

lemma serverOk_makeMove:
  assumes "serverOk s"
  shows "serverOk (snd (makeMove socket gameId i s))"
proof (cases "lookupGame s gameId")
  case (Own g)
  from lookupGame_Own_mem[OF Own] assms have g: "gameOk g" and k: "take 5 gameId = ''game_''"
    by (auto dest: serverOk_gameOk serverOk_key)
  show ?thesis
    using Own assms g k
    by (auto simp: makeMove_def Let_def split: option.splits
             intro!: serverOk_update gameOk_applyMove)
qed (use assms in \<open>simp_all add: makeMove_def\<close>)

lemma serverOk_requestRematch:
  assumes "serverOk s"
  shows "serverOk (snd (requestRematch socket gameId s))"
proof (cases "lookupGame s gameId")
  case (Own g)
  from lookupGame_Own_mem[OF Own] assms have g: "gameOk g" and k: "take 5 gameId = ''game_''"
    by (auto dest: serverOk_gameOk serverOk_key)
  show ?thesis
    using Own assms g k
    by (auto simp: requestRematch_def Let_def intro!: serverOk_update gameOk_resetGame)
qed (use assms in \<open>simp_all add: requestRematch_def serverOk_rematched\<close>)

lemma serverOk_removePlayerAt:
  assumes "serverOk s" "(gameId, g) \<in> set (games s)" "i < length (players g)"
  shows "serverOk (snd (removePlayerAt gameId g i s))"
proof -
  from assms have g: "gameOk g" and k: "take 5 gameId = ''game_''"
    by (auto dest: serverOk_gameOk serverOk_key)
  show ?thesis
  proof (cases "splice1 i (players g)")
    case Nil
    then show ?thesis using assms(1) by (simp add: removePlayerAt_def Let_def serverOk_delete)
  next
    case (Cons p ps)
    then have "splice1 i (players g) \<noteq> []" by simp
    from gameOk_remove[OF g assms(3) this] Cons assms(1) k show ?thesis
      by (simp add: removePlayerAt_def Let_def serverOk_update)
  qed
qed

lemma scanGames_Some:
  "scanGames socket gs = Some (k, g, i) \<Longrightarrow>
     (k, g) \<in> set gs \<and> findIndex (\<lambda>p. id_p p = socket) (players g) = Some i"
  by (induction gs) (auto split: option.splits)

lemma serverOk_disconnect:
  assumes "serverOk s"
  shows "serverOk (snd (disconnect socket s))"
proof (cases "scanGames socket (games s)")
  case None
  then show ?thesis using assms by (simp add: disconnect_def)
next
  case (Some r)
  obtain k g i where r: "r = (k, g, i)" by (cases r)
  from scanGames_Some[OF Some[unfolded r]] findIndex_Some_less
  have "(k, g) \<in> set (games s)" "i < length (players g)" by auto
  from serverOk_removePlayerAt[OF assms this] Some r show ?thesis
    by (simp add: disconnect_def)
qed

lemma serverOk_leaveGame:
  assumes "serverOk s"
  shows "serverOk (snd (leaveGame socket gameId s))"
proof (cases "lookupGame s gameId")
  case (Own g)
  show ?thesis
  proof (cases "findIndex (\<lambda>p. id_p p = socket) (players g)")
    case None
    with Own assms show ?thesis by (simp add: leaveGame_def)
  next
    case (Some i)
    from serverOk_removePlayerAt[OF assms lookupGame_Own_mem[OF Own] findIndex_Some_less[OF Some]]
      Own Some show ?thesis by (simp add: leaveGame_def)
  qed
qed (use assms in \<open>simp_all add: leaveGame_def\<close>)

lemma serverOk_step: "serverOk s \<Longrightarrow> serverOk (snd (step e s))"
  by (cases e)
     (simp_all add: serverOk_createGame serverOk_joinGame serverOk_makeMove
        serverOk_requestRematch serverOk_disconnect serverOk_leaveGame)

lemma serverOk_initial: "serverOk initialServer"
  by (simp add: serverOk_def initialServer_def)

lemma reachable_serverOk: "reachable s \<Longrightarrow> serverOk s"
  by (induction rule: reachable.induct) (simp_all add: serverOk_initial serverOk_step)

lemma reachable_run: "reachable s \<Longrightarrow> reachable (run s es)"
  by (induction es arbitrary: s) (auto intro: reachable.handled)

section \<open>The move engine: proofs\<close>

subsection \<open>The example runs, evaluated\<close>

lemmas handler_defs =
  createGame_def joinGame_def makeMove_def requestRematch_def disconnect_def leaveGame_def
  removePlayerAt_def applyMove_def resetGame_def lookupGame_def readWinner_def
  prototypePolluted_def inheritedHasBoard_def playerNameOf_def splice1_def
  checkWinner_def winPatterns_def cellAt_def cellSet_def initialServer_def
  objectPrototypeKeys_def participant_def Let_def

lemma exStarted_eq:
  "exStarted = \<lparr>games = [(''game_k3f9x2a1b'', exGame)], rematched = []\<rparr>"
  by (simp add: exStarted_def exGame_def exPlayerA_def exPlayerB_def handler_defs eval_nat_numeral)

lemma exWon_eq:
  "exWon = \<lparr>games = [(''game_k3f9x2a1b'', exGameWon)], rematched = []\<rparr>"
  unfolding exWon_def exStarted_eq
  by (simp add: exGame_def exGameWon_def exPlayerA_def exPlayerB_def handler_defs)

lemma reachable_exStarted: "reachable exStarted"
  unfolding exStarted_def by (rule reachable_run[OF reachable.initial])

lemma reachable_exWon: "reachable exWon"
  unfolding exWon_def by (rule reachable_run[OF reachable_exStarted])

subsection \<open>A valid move\<close>

lemma checkWinner_range:
  assumes "boardOk b"
  shows "checkWinner b = Str ''X'' \<or> checkWinner b = Str ''O'' \<or> checkWinner b = Str ''Tie''
           \<or> checkWinner b = Null"
proof -
  from assms have cells: "set b \<subseteq> {Null, Str ''X'', Str ''O''}" by (simp add: boardOk_def)
  from scan_Some_symbol[OF cells] show ?thesis
    by (auto simp: checkWinner_def split: option.splits)
qed

text \<open>
  In a session of a reachable state every winning triple holds the symbol of
  \<^verbatim>\<open>currentPlayer\<close>, so no board of the program has triples of both symbols.
\<close>

lemma reachable_one_winning_symbol:
  assumes "reachable s" and "lookupGame s gameId = Own g"
    and "t \<in> set (rows @ columns @ diagonals)" and "u \<in> set (rows @ columns @ diagonals)"
  shows "\<not> (uniformly (board g) ''X'' t \<and> uniformly (board g) ''O'' u)"
proof
  assume both: "uniformly (board g) ''X'' t \<and> uniformly (board g) ''O'' u"
  from reachable_serverOk[OF assms(1)] lookupGame_Own_mem[OF assms(2)]
  have "gameOk g" by (rule serverOk_gameOk)
  then have J: "\<forall>t \<in> set winPatterns.
      patternWins (board g) t \<longrightarrow> cellAt (board g) (fst t) = Str (currentPlayer g)"
    by (simp add: gameOk_def)
  have x: "patternWins (board g) t \<and> Str ''X'' = cellAt (board g) (fst t)"
    using both patternWins_value[of "''X''" "board g" t] by simp
  have o: "patternWins (board g) u \<and> Str ''O'' = cellAt (board g) (fst u)"
    using both patternWins_value[of "''O''" "board g" u] by simp
  from J x assms(3) have "currentPlayer g = ''X''"
    unfolding winPatterns_order by auto
  moreover from J o assms(4) have "currentPlayer g = ''O''"
    unfolding winPatterns_order by auto
  ultimately show False by simp
qed

lemma makeMove_accepts:
  assumes "lookupGame s gameId = Own g" "cellAt (board g) cellIndex = Null"
    "participant g socket = Some p" "symbol p = currentPlayer g"
  shows "makeMove socket gameId cellIndex s =
           (Emits [ToRoom gameId (MoveMade (board (applyMove g cellIndex))
                     (readWinner s (applyMove g cellIndex))
                     (currentPlayer (applyMove g cellIndex)) gameId)],
            s\<lparr>games := AList.update gameId (applyMove g cellIndex) (games s)\<rparr>)"
  using assms by (simp add: makeMove_def participant_def Let_def)

lemma lookupGame_update:
  "lookupGame (s\<lparr>games := AList.update k g (games s)\<rparr>) k = Own g"
  by (simp add: lookupGame_Own AList.update_conv')

text \<open>
  Claim C2. For every session of a reachable state and every valid move (the session
  exists, \<^verbatim>\<open>board[cellIndex]\<close> is empty, and the participant found for the requester
  has the symbol \<^verbatim>\<open>currentPlayer\<close>), \<^verbatim>\<open>makeMove\<close> writes the mover's symbol into
  \<^verbatim>\<open>board[cellIndex]\<close>, an index from 0 to 8, and changes nothing else of the board,
  the players or the status. Then, by the evaluation of the new board: a win of \<open>w\<close>
  sets \<^verbatim>\<open>winner\<close> to \<open>w\<close> and leaves \<^verbatim>\<open>currentPlayer\<close> unchanged; a tie sets
  \<^verbatim>\<open>winner\<close> to \<^verbatim>\<open>'Tie'\<close>; otherwise \<^verbatim>\<open>currentPlayer\<close> becomes the other symbol and
  \<^verbatim>\<open>winner\<close> stays as it was. The evaluation has no fourth outcome.
\<close>

theorem makeMove_valid_move:
  assumes "reachable s" and "lookupGame s gameId = Own g"
    and "cellAt (board g) cellIndex = Null"
    and "participant g socket = Some p" and "symbol p = currentPlayer g"
  shows "\<exists>g'. snd (makeMove socket gameId cellIndex s)
                = s\<lparr>games := AList.update gameId g' (games s)\<rparr>
           \<and> lookupGame (snd (makeMove socket gameId cellIndex s)) gameId = Own g'
           \<and> fst (makeMove socket gameId cellIndex s)
                = Emits [ToRoom gameId (MoveMade (board g') (readWinner s g') (currentPlayer g') gameId)]
           \<and> 0 \<le> cellIndex \<and> cellIndex \<le> 8
           \<and> board g' = (board g)[nat cellIndex := Str (symbol p)]
           \<and> players g' = players g \<and> status g' = status g
           \<and> (\<forall>w \<in> {''X'', ''O''}. checkWinner (board g') = Str w \<longrightarrow>
                 winner g' = Str w \<and> currentPlayer g' = currentPlayer g)
           \<and> (checkWinner (board g') = Str ''Tie'' \<longrightarrow> winner g' = Str ''Tie'')
           \<and> (checkWinner (board g') = Null \<longrightarrow>
                 currentPlayer g' \<noteq> currentPlayer g
                 \<and> (currentPlayer g' = ''X'' \<or> currentPlayer g' = ''O'')
                 \<and> winner g' = winner g)
           \<and> (checkWinner (board g') = Str ''X'' \<or> checkWinner (board g') = Str ''O''
                \<or> checkWinner (board g') = Str ''Tie'' \<or> checkWinner (board g') = Null)"
proof -
  let ?g' = "applyMove g cellIndex"
  let ?b' = "cellSet (board g) cellIndex (Str (currentPlayer g))"
  from reachable_serverOk[OF assms(1)] lookupGame_Own_mem[OF assms(2)]
  have ok: "gameOk g" by (rule serverOk_gameOk)
  then have cp: "currentPlayer g = ''X'' \<or> currentPlayer g = ''O''"
    and len: "length (board g) = 9"
    by (simp_all add: gameOk_def boardOk_def)
  from cellAt_Null_in_range[OF assms(3)] len
  have r: "0 \<le> cellIndex" "cellIndex < int (length (board g))" and r8: "cellIndex \<le> 8" by auto
  have b': "board ?g' = ?b'" by (simp add: applyMove_def Let_def)
  have upd: "?b' = (board g)[nat cellIndex := Str (symbol p)]"
    using cellSet_in_range[OF r] assms(5) by simp
  from gameOk_applyMove[OF ok assms(3)] have "boardOk (board ?g')" by (simp add: gameOk_def)
  note rng = checkWinner_range[OF this]
  note mm = makeMove_accepts[OF assms(2-5)]
  have 1: "snd (makeMove socket gameId cellIndex s)
             = s\<lparr>games := AList.update gameId ?g' (games s)\<rparr>"
    by (simp add: mm)
  have 2: "lookupGame (snd (makeMove socket gameId cellIndex s)) gameId = Own ?g'"
    unfolding 1 by (rule lookupGame_update)
  have 3: "fst (makeMove socket gameId cellIndex s)
             = Emits [ToRoom gameId (MoveMade (board ?g') (readWinner s ?g') (currentPlayer ?g') gameId)]"
    by (simp add: mm)
  have 4: "players ?g' = players g \<and> status ?g' = status g"
    by (simp add: applyMove_def Let_def)
  have 5: "\<forall>w \<in> {''X'', ''O''}. checkWinner (board ?g') = Str w \<longrightarrow>
             winner ?g' = Str w \<and> currentPlayer ?g' = currentPlayer g"
    unfolding b' by (auto simp: applyMove_def Let_def)
  have 6: "checkWinner (board ?g') = Str ''Tie'' \<longrightarrow> winner ?g' = Str ''Tie''"
    unfolding b' by (auto simp: applyMove_def Let_def)
  have 7: "checkWinner (board ?g') = Null \<longrightarrow>
             currentPlayer ?g' \<noteq> currentPlayer g
             \<and> (currentPlayer ?g' = ''X'' \<or> currentPlayer ?g' = ''O'')
             \<and> winner ?g' = winner g"
    unfolding b' using cp by (auto simp: applyMove_def Let_def)
  from 1 2 3 r(1) r8 b' upd 4 5 6 7 rng show ?thesis
    by (intro exI[of _ ?g']) simp
qed

text \<open>The first move of the example: \<^verbatim>\<open>X\<close> takes the centre and the turn passes to \<^verbatim>\<open>O\<close>.\<close>

theorem makeMove_valid_move_witness:
  "reachable exStarted
   \<and> lookupGame exStarted ''game_k3f9x2a1b'' = Own exGame
   \<and> cellAt (board exGame) 4 = Null
   \<and> participant exGame ''sockA'' = Some exPlayerA
   \<and> symbol exPlayerA = currentPlayer exGame
   \<and> (\<exists>g'. lookupGame (snd (makeMove ''sockA'' ''game_k3f9x2a1b'' 4 exStarted)) ''game_k3f9x2a1b''
               = Own g'
          \<and> board g' = [Null, Null, Null, Null, Str ''X'', Null, Null, Null, Null]
          \<and> currentPlayer g' = ''O'' \<and> winner g' = Undefined)"
proof -
  have h1: "reachable exStarted" by (rule reachable_exStarted)
  have h2: "lookupGame exStarted ''game_k3f9x2a1b'' = Own exGame"
    by (simp add: exStarted_eq lookupGame_def)
  have h3: "cellAt (board exGame) 4 = Null" by (simp add: exGame_def cellAt_def)
  have h4: "participant exGame ''sockA'' = Some exPlayerA"
    by (simp add: participant_def exGame_def exPlayerA_def)
  have h5: "symbol exPlayerA = currentPlayer exGame" by (simp add: exGame_def exPlayerA_def)
  from makeMove_valid_move[OF h1 h2 h3 h4 h5] obtain g' where
    l: "lookupGame (snd (makeMove ''sockA'' ''game_k3f9x2a1b'' 4 exStarted)) ''game_k3f9x2a1b'' = Own g'"
    and b: "board g' = (board exGame)[nat 4 := Str (symbol exPlayerA)]"
    and n: "checkWinner (board g') = Null \<longrightarrow>
              currentPlayer g' \<noteq> currentPlayer exGame
              \<and> (currentPlayer g' = ''X'' \<or> currentPlayer g' = ''O'') \<and> winner g' = winner exGame"
    by blast
  from b have b': "board g' = [Null, Null, Null, Null, Str ''X'', Null, Null, Null, Null]"
    by (simp add: exGame_def exPlayerA_def)
  have "checkWinner [Null, Null, Null, Null, Str ''X'', Null, Null, Null, Null] = Null"
    by (simp add: checkWinner_def winPatterns_def cellAt_def)
  with n b' have "currentPlayer g' = ''O'' \<and> winner g' = Undefined"
    by (auto simp: exGame_def)
  with l b' h1 h2 h3 h4 h5 show ?thesis by blast
qed

subsection \<open>Rejected moves\<close>

lemma makeMove_Missing:
  "lookupGame s gameId = Missing \<Longrightarrow> makeMove socket gameId cellIndex s = (moveNotFound, s)"
  by (simp add: makeMove_def moveNotFound_def)

lemma makeMove_taken:
  "lookupGame s gameId = Own g \<Longrightarrow> cellAt (board g) cellIndex \<noteq> Null \<Longrightarrow>
     makeMove socket gameId cellIndex s = (moveCellTaken, s)"
  by (simp add: makeMove_def moveCellTaken_def)

lemma makeMove_not_participant:
  "lookupGame s gameId = Own g \<Longrightarrow> cellAt (board g) cellIndex = Null \<Longrightarrow>
     participant g socket = None \<Longrightarrow>
     makeMove socket gameId cellIndex s = (moveNotYourTurn, s)"
  by (simp add: makeMove_def moveNotYourTurn_def participant_def)

lemma makeMove_other_symbol:
  "lookupGame s gameId = Own g \<Longrightarrow> cellAt (board g) cellIndex = Null \<Longrightarrow>
     participant g socket = Some p \<Longrightarrow> symbol p \<noteq> currentPlayer g \<Longrightarrow>
     makeMove socket gameId cellIndex s = (moveNotYourTurn, s)"
  by (simp add: makeMove_def moveNotYourTurn_def participant_def)

text \<open>
  For a session id that is an own key of the store or that reads as a falsy value, the
  checks of \<^verbatim>\<open>makeMove\<close> come in the order session, cell, turn, and every rejection
  leaves the state as it was.
\<close>

lemma makeMove_validation_order:
  assumes "lookupGame s gameId \<noteq> Inherited"
  shows "(lookupGame s gameId = Missing \<longrightarrow>
            makeMove socket gameId cellIndex s = (moveNotFound, s))
       \<and> (\<forall>g. lookupGame s gameId = Own g \<and> cellAt (board g) cellIndex \<noteq> Null \<longrightarrow>
            makeMove socket gameId cellIndex s = (moveCellTaken, s))
       \<and> (\<forall>g. lookupGame s gameId = Own g \<and> cellAt (board g) cellIndex = Null
              \<and> (participant g socket = None
                  \<or> (\<exists>p. participant g socket = Some p \<and> symbol p \<noteq> currentPlayer g)) \<longrightarrow>
            makeMove socket gameId cellIndex s = (moveNotYourTurn, s))"
  by (auto simp: makeMove_Missing makeMove_taken makeMove_not_participant makeMove_other_symbol)

text \<open>
  Claim C3 fails on the code at a session id that names a property of
  \<^verbatim>\<open>Object.prototype\<close>. No session \<^verbatim>\<open>toString\<close> exists in the initial store, yet
  \<^verbatim>\<open>games['toString']\<close> is a function, so \<^verbatim>\<open>!game\<close> is false; the function has no
  \<^verbatim>\<open>board\<close>, \<^verbatim>\<open>game.board[cellIndex]\<close> throws, and the handler answers with its
  internal fault \<^verbatim>\<open>'Failed to make move'\<close> where the claim says \<^verbatim>\<open>NotFound\<close>.
\<close>

theorem makeMove_inherited_key:
  "map_of (games initialServer) ''toString'' = None
   \<and> makeMove ''sockA'' ''toString'' 0 initialServer
       = (Emits [ToSocket (MoveError ''Failed to make move'')], initialServer)
   \<and> fst (makeMove ''sockA'' ''toString'' 0 initialServer) \<noteq> moveNotFound"
  by (simp add: makeMove_def lookupGame_def initialServer_def objectPrototypeKeys_def
        inheritedHasBoard_def prototypePolluted_def moveNotFound_def)

subsection \<open>Joining\<close>

lemma joinGame_Missing:
  "lookupGame s gameId = Missing \<Longrightarrow> joinGame socket gameId name rnd s = (joinNotFound, s)"
  by (simp add: joinGame_def joinNotFound_def)

lemma joinGame_full:
  "lookupGame s gameId = Own g \<Longrightarrow> 2 \<le> length (players g) \<Longrightarrow>
     joinGame socket gameId name rnd s = (joinFull, s)"
  by (simp add: joinGame_def joinFull_def)

lemma joinGame_joins:
  assumes "lookupGame s gameId = Own g" "length (players g) < 2"
  shows "snd (joinGame socket gameId name rnd s)
           = s\<lparr>games := AList.update gameId
                 (g\<lparr>players := players g @ [\<lparr>id_p = socket, username = playerNameOf name rnd,
                                               symbol = ''O'', disconnected = False\<rparr>],
                    status := ''in-progress''\<rparr>) (games s)\<rparr>"
  using assms by (simp add: joinGame_def Let_def)

text \<open>
  For a session id that is an own key of the store or that reads as a falsy value:
  an unknown id is answered with \<^verbatim>\<open>NotFound\<close>, a session with two participants with
  \<^verbatim>\<open>Full\<close>, both without a change of the store; otherwise a participant with the
  symbol \<^verbatim>\<open>O\<close> is appended and the status becomes \<^verbatim>\<open>in-progress\<close>.
\<close>

lemma joinGame_outcomes:
  assumes "lookupGame s gameId \<noteq> Inherited"
  shows "(lookupGame s gameId = Missing \<longrightarrow>
            joinGame socket gameId name rnd s = (joinNotFound, s))
       \<and> (\<forall>g. lookupGame s gameId = Own g \<and> 2 \<le> length (players g) \<longrightarrow>
            joinGame socket gameId name rnd s = (joinFull, s))
       \<and> (\<forall>g. lookupGame s gameId = Own g \<and> length (players g) < 2 \<longrightarrow>
            (\<exists>g'. lookupGame (snd (joinGame socket gameId name rnd s)) gameId = Own g'
               \<and> (\<exists>p. players g' = players g @ [p] \<and> symbol p = ''O'' \<and> id_p p = socket)
               \<and> status g' = ''in-progress''
               \<and> board g' = board g \<and> currentPlayer g' = currentPlayer g
               \<and> winner g' = winner g))"
  by (auto simp: joinGame_Missing joinGame_full joinGame_joins lookupGame_update)

text \<open>
  Claim C7 fails on the code at a session id that names a property of
  \<^verbatim>\<open>Object.prototype\<close>. No session \<^verbatim>\<open>toString\<close> exists in the initial store, yet
  \<^verbatim>\<open>games['toString']\<close> is truthy, its \<^verbatim>\<open>players\<close> is undefined,
  \<^verbatim>\<open>.length\<close> throws, and the handler answers with its internal fault
  \<^verbatim>\<open>'Failed to join game'\<close> where the claim says \<^verbatim>\<open>NotFound\<close>.
\<close>

theorem joinGame_inherited_key:
  "map_of (games initialServer) ''toString'' = None
   \<and> joinGame ''sockA'' ''toString'' ''ann'' 0 initialServer
       = (Emits [ToSocket (JoinError ''Failed to join game'')], initialServer)
   \<and> fst (joinGame ''sockA'' ''toString'' ''ann'' 0 initialServer) \<noteq> joinNotFound"
  by (simp add: joinGame_def lookupGame_def initialServer_def objectPrototypeKeys_def
        joinNotFound_def)

subsection \<open>Rematch\<close>

lemma requestRematch_Missing:
  "lookupGame s gameId = Missing \<Longrightarrow> requestRematch socket gameId s = (rematchNotFound, s)"
  by (simp add: requestRematch_def rematchNotFound_def)

text \<open>
  For an existing session the rematch resets board, turn, winner and status and keeps
  the player list; for an id that reads as a falsy value it answers \<^verbatim>\<open>NotFound\<close> and
  changes nothing.
\<close>

lemma requestRematch_outcomes:
  assumes "lookupGame s gameId \<noteq> Inherited"
  shows "(lookupGame s gameId = Missing \<longrightarrow>
            requestRematch socket gameId s = (rematchNotFound, s))
       \<and> (\<forall>g. lookupGame s gameId = Own g \<longrightarrow>
            (\<exists>g'. snd (requestRematch socket gameId s)
                     = s\<lparr>games := AList.update gameId g' (games s)\<rparr>
               \<and> lookupGame (snd (requestRematch socket gameId s)) gameId = Own g'
               \<and> board g' = replicate 9 Null \<and> currentPlayer g' = ''X''
               \<and> winner g' = Null \<and> status g' = ''in-progress''
               \<and> players g' = players g
               \<and> fst (requestRematch socket gameId s)
                    = Emits [ToRoom gameId (RematchAccepted (replicate 9 Null) ''X'' gameId),
                             Ack AckSuccess]))"
  by (auto simp: rematchNotFound_def requestRematch_def Let_def resetGame_def lookupGame_update)

text \<open>
  Claim C6 fails on the code at a session id that names a property of
  \<^verbatim>\<open>Object.prototype\<close>. No session \<^verbatim>\<open>toString\<close> exists in the initial store, yet
  \<^verbatim>\<open>games['toString']\<close> is a function, so \<^verbatim>\<open>!game\<close> is false: the four
  assignments go to that function, the reset is broadcast, and the caller is told
  \<^verbatim>\<open>success\<close> where the claim says \<^verbatim>\<open>NotFound\<close>.
\<close>

theorem requestRematch_inherited_key:
  "map_of (games initialServer) ''toString'' = None
   \<and> fst (requestRematch ''sockA'' ''toString'' initialServer)
       = Emits [ToRoom ''toString''
                  (RematchAccepted [Null, Null, Null, Null, Null, Null, Null, Null, Null]
                     ''X'' ''toString''),
                Ack AckSuccess]
   \<and> fst (requestRematch ''sockA'' ''toString'' initialServer) \<noteq> rematchNotFound"
  by (simp add: requestRematch_def lookupGame_def initialServer_def objectPrototypeKeys_def
        rematchNotFound_def eval_nat_numeral)

section \<open>Status and terminal states: proofs\<close>

subsection \<open>Status, winner and the number of players\<close>

lemma exLeft_eq:
  "exLeft = \<lparr>games = [(''game_k3f9x2a1b'', exGameLeft)], rematched = []\<rparr>"
  unfolding exLeft_def exWon_eq
  by (simp add: exGameWon_def exGameLeft_def exPlayerA_def exPlayerB_def handler_defs)

lemma reachable_exLeft: "reachable exLeft"
  unfolding exLeft_def by (rule reachable_run[OF reachable_exWon])

text \<open>
  Claim C4 fails on the code. After \<^verbatim>\<open>X\<close> has won and the other participant has
  disconnected, the session has a winner and a single player, and its status is still
  \<^verbatim>\<open>in-progress\<close>: neither \<^verbatim>\<open>finished\<close> nor \<^verbatim>\<open>waiting\<close>.
\<close>

theorem status_iff_counterexample:
  "reachable exLeft
   \<and> lookupGame exLeft ''game_k3f9x2a1b'' = Own exGameLeft
   \<and> \<not> (status exGameLeft = ''finished'' \<longleftrightarrow> \<not> noWinner exGameLeft)
   \<and> \<not> (status exGameLeft = ''waiting'' \<longleftrightarrow> length (players exGameLeft) < 2)"
  using reachable_exLeft
  by (simp add: exLeft_eq lookupGame_def exGameLeft_def noWinner_def)

text \<open>
  Claim C4 as amended. In every session of a reachable state the status is
  \<^verbatim>\<open>waiting\<close> or \<^verbatim>\<open>in-progress\<close> and never \<^verbatim>\<open>finished\<close>, whatever the winner
  (so of the first equivalence only the direction from \<^verbatim>\<open>finished\<close> to a winner
  holds, for want of such a state); and a session whose status is \<^verbatim>\<open>waiting\<close> has
  fewer than two players.
\<close>

theorem status_invariant:
  assumes "reachable s" and "lookupGame s gameId = Own g"
  shows "status g \<noteq> ''finished''
       \<and> (status g = ''waiting'' \<or> status g = ''in-progress'')
       \<and> (status g = ''finished'' \<longrightarrow> \<not> noWinner g)
       \<and> (status g = ''waiting'' \<longrightarrow> length (players g) < 2)"
proof -
  from reachable_serverOk[OF assms(1)] lookupGame_Own_mem[OF assms(2)]
  have "gameOk g" by (rule serverOk_gameOk)
  then show ?thesis by (auto simp: gameOk_def)
qed

text \<open>The session of the counterexample: its status is \<^verbatim>\<open>in-progress\<close>.\<close>

theorem status_invariant_witness:
  "reachable exLeft
   \<and> lookupGame exLeft ''game_k3f9x2a1b'' = Own exGameLeft
   \<and> status exGameLeft \<noteq> ''finished''
   \<and> status exGameLeft = ''in-progress''"
proof -
  have h1: "reachable exLeft" by (rule reachable_exLeft)
  have h2: "lookupGame exLeft ''game_k3f9x2a1b'' = Own exGameLeft"
    by (simp add: exLeft_eq lookupGame_def)
  from status_invariant[OF h1 h2] have "status exGameLeft \<noteq> ''finished''"
    and "status exGameLeft = ''waiting'' \<or> status exGameLeft = ''in-progress''" by simp_all
  moreover have "status exGameLeft \<noteq> ''waiting''" by (simp add: exGameLeft_def)
  ultimately show ?thesis using h1 h2 by simp
qed

subsection \<open>Moves in a terminal state\<close>

lemma applyMove_after_win:
  assumes ok: "gameOk g" and empty: "cellAt (board g) i = Null"
    and won: "winner g = Str (currentPlayer g)"
  shows "winner (applyMove g i) = winner g \<and> currentPlayer (applyMove g i) = currentPlayer g"
proof -
  let ?b = "board g" and ?cp = "currentPlayer g"
  let ?b' = "cellSet ?b i (Str ?cp)"
  from cellAt_Null_in_range[OF empty] have r: "0 \<le> i" "i < int (length ?b)" by auto
  from ok have cp: "?cp = ''X'' \<or> ?cp = ''O''"
    and J: "\<forall>t \<in> set winPatterns. patternWins ?b t \<longrightarrow> cellAt ?b (fst t) = Str ?cp"
    and K: "winner g = Str ?cp \<longrightarrow> (\<exists>t \<in> set winPatterns. patternWins ?b t)"
    by (simp_all add: gameOk_def)
  from K won obtain t where t: "t \<in> set winPatterns" "patternWins ?b t" by blast
  from patternWins_persists[OF empty t(2)] t(1)
  have "scanPatterns ?b' winPatterns \<noteq> None" by (auto simp: scanPatterns_None)
  then obtain w where Some: "scanPatterns ?b' winPatterns = Some w" by auto
  from scanPatterns_SomeD[OF Some] obtain u where
    u: "u \<in> set winPatterns" "patternWins ?b' u" "w = cellAt ?b' (fst u)" by blast
  from patternWins_cellSet[OF r u(2)] J u(1) u(3) have "w = Str ?cp" by auto
  with Some have "checkWinner ?b' = Str ?cp" by (simp add: checkWinner_def)
  with cp won show ?thesis by (auto simp: applyMove_def Let_def)
qed

text \<open>
  Claim C5 fails on the code: \<^verbatim>\<open>makeMove\<close> never looks at \<^verbatim>\<open>winner\<close>. In the
  example \<^verbatim>\<open>X\<close> has won and it is still the turn of \<^verbatim>\<open>X\<close>; a further move of
  \<^verbatim>\<open>X\<close> on the empty cell 5 is accepted, broadcast, and written to the board.
\<close>

theorem makeMove_terminal_counterexample:
  "reachable exWon
   \<and> lookupGame exWon ''game_k3f9x2a1b'' = Own exGameWon
   \<and> \<not> noWinner exGameWon
   \<and> fst (makeMove ''sockA'' ''game_k3f9x2a1b'' 5 exWon)
       = Emits [ToRoom ''game_k3f9x2a1b''
                 (MoveMade [Str ''X'', Str ''X'', Str ''X'', Str ''O'', Str ''O'', Str ''X'',
                            Null, Null, Null]
                    (Str ''X'') ''X'' ''game_k3f9x2a1b'')]
   \<and> snd (makeMove ''sockA'' ''game_k3f9x2a1b'' 5 exWon) \<noteq> exWon"
  using reachable_exWon
  by (simp add: exWon_eq exGameWon_def exPlayerA_def exPlayerB_def noWinner_def handler_defs)

text \<open>
  Claim C5 as amended. For every session of a reachable state that has a winner: after a
  tie every \<^verbatim>\<open>makeMove\<close> request fails with \<^verbatim>\<open>CellTaken\<close> and changes nothing;
  after a win \<^verbatim>\<open>currentPlayer\<close> is the winner, and every request fails with
  \<^verbatim>\<open>CellTaken\<close> or \<^verbatim>\<open>NotYourTurn\<close> and changes nothing, except a request for an
  empty cell by the participant who holds the winning symbol: that move is accepted and
  written to the board, while \<^verbatim>\<open>winner\<close> and \<^verbatim>\<open>currentPlayer\<close> keep their values.
\<close>

theorem makeMove_terminal:
  assumes "reachable s" and "lookupGame s gameId = Own g" and "\<not> noWinner g"
  shows "(winner g = Str ''Tie'' \<longrightarrow> makeMove socket gameId cellIndex s = (moveCellTaken, s))
       \<and> (winner g \<noteq> Str ''Tie'' \<longrightarrow>
            winner g = Str (currentPlayer g)
            \<and> (if cellAt (board g) cellIndex = Null
                   \<and> (\<exists>p. participant g socket = Some p \<and> symbol p = currentPlayer g)
                then \<exists>g'. snd (makeMove socket gameId cellIndex s)
                             = s\<lparr>games := AList.update gameId g' (games s)\<rparr>
                       \<and> board g' = (board g)[nat cellIndex := Str (currentPlayer g)]
                       \<and> winner g' = winner g \<and> currentPlayer g' = currentPlayer g
                else snd (makeMove socket gameId cellIndex s) = s
                       \<and> (fst (makeMove socket gameId cellIndex s) = moveCellTaken
                          \<or> fst (makeMove socket gameId cellIndex s) = moveNotYourTurn)))"
proof -
  from reachable_serverOk[OF assms(1)] lookupGame_Own_mem[OF assms(2)]
  have ok: "gameOk g" by (rule serverOk_gameOk)
  then have W: "noWinner g \<or> winner g = Str ''Tie'' \<or> winner g = Str (currentPlayer g)"
    and T: "winner g = Str ''Tie'' \<longrightarrow> Null \<notin> set (board g)"
    by (simp_all add: gameOk_def)
  have tie: "makeMove socket gameId cellIndex s = (moveCellTaken, s)" if "winner g = Str ''Tie''"
  proof -
    from that T cellAt_Null_in_set[of "board g" cellIndex]
    have "cellAt (board g) cellIndex \<noteq> Null" by blast
    then show ?thesis by (rule makeMove_taken[OF assms(2)])
  qed
  have win: "winner g = Str (currentPlayer g)
            \<and> (if cellAt (board g) cellIndex = Null
                   \<and> (\<exists>p. participant g socket = Some p \<and> symbol p = currentPlayer g)
                then \<exists>g'. snd (makeMove socket gameId cellIndex s)
                             = s\<lparr>games := AList.update gameId g' (games s)\<rparr>
                       \<and> board g' = (board g)[nat cellIndex := Str (currentPlayer g)]
                       \<and> winner g' = winner g \<and> currentPlayer g' = currentPlayer g
                else snd (makeMove socket gameId cellIndex s) = s
                       \<and> (fst (makeMove socket gameId cellIndex s) = moveCellTaken
                          \<or> fst (makeMove socket gameId cellIndex s) = moveNotYourTurn))"
    if nt: "winner g \<noteq> Str ''Tie''"
  proof -
    from W nt assms(3) have won: "winner g = Str (currentPlayer g)" by blast
    show ?thesis
    proof (cases "cellAt (board g) cellIndex = Null")
      case False
      from makeMove_taken[OF assms(2) False] False won show ?thesis by simp
    next
      case empty: True
      show ?thesis
      proof (cases "participant g socket")
        case None
        from makeMove_not_participant[OF assms(2) empty None] None won show ?thesis by simp
      next
        case (Some p)
        show ?thesis
        proof (cases "symbol p = currentPlayer g")
          case False
          from makeMove_other_symbol[OF assms(2) empty Some False] Some False won
          show ?thesis by simp
        next
          case True
          let ?g' = "applyMove g cellIndex"
          from cellAt_Null_in_range[OF empty]
          have r: "0 \<le> cellIndex" "cellIndex < int (length (board g))" by auto
          have "board ?g' = (board g)[nat cellIndex := Str (currentPlayer g)]"
            using cellSet_in_range[OF r] by (simp add: applyMove_def Let_def)
          with makeMove_accepts[OF assms(2) empty Some True] applyMove_after_win[OF ok empty won]
          have "snd (makeMove socket gameId cellIndex s)
                  = s\<lparr>games := AList.update gameId ?g' (games s)\<rparr>
                \<and> board ?g' = (board g)[nat cellIndex := Str (currentPlayer g)]
                \<and> winner ?g' = winner g \<and> currentPlayer ?g' = currentPlayer g"
            by simp
          then have "\<exists>g'. snd (makeMove socket gameId cellIndex s)
                             = s\<lparr>games := AList.update gameId g' (games s)\<rparr>
                       \<and> board g' = (board g)[nat cellIndex := Str (currentPlayer g)]
                       \<and> winner g' = winner g \<and> currentPlayer g' = currentPlayer g"
            by (rule exI)
          with empty Some True won show ?thesis by simp
        qed
      qed
    qed
  qed
  from tie win show ?thesis by blast
qed

text \<open>
  In the example the loser's request is refused and the state stays as it is.
\<close>

theorem makeMove_terminal_witness:
  "reachable exWon
   \<and> lookupGame exWon ''game_k3f9x2a1b'' = Own exGameWon
   \<and> \<not> noWinner exGameWon
   \<and> winner exGameWon = Str (currentPlayer exGameWon)
   \<and> snd (makeMove ''sockB'' ''game_k3f9x2a1b'' 5 exWon) = exWon
   \<and> (fst (makeMove ''sockB'' ''game_k3f9x2a1b'' 5 exWon) = moveCellTaken
        \<or> fst (makeMove ''sockB'' ''game_k3f9x2a1b'' 5 exWon) = moveNotYourTurn)"
proof -
  have h1: "reachable exWon" by (rule reachable_exWon)
  have h2: "lookupGame exWon ''game_k3f9x2a1b'' = Own exGameWon"
    by (simp add: exWon_eq lookupGame_def)
  have h3: "\<not> noWinner exGameWon" by (simp add: exGameWon_def noWinner_def)
  have nt: "winner exGameWon \<noteq> Str ''Tie''" by (simp add: exGameWon_def)
  have np: "\<not> (cellAt (board exGameWon) 5 = Null
              \<and> (\<exists>p. participant exGameWon ''sockB'' = Some p
                      \<and> symbol p = currentPlayer exGameWon))"
    by (simp add: exGameWon_def participant_def exPlayerA_def exPlayerB_def)
  from makeMove_terminal[OF h1 h2 h3, of "''sockB''" 5] nt np h1 h2 h3 show ?thesis by simp
qed

section \<open>Leaving and disconnecting: proofs\<close>

subsection \<open>Leaving and disconnecting\<close>

lemma findIndex_None: "findIndex P xs = None \<longleftrightarrow> (\<forall>x \<in> set xs. \<not> P x)"
  by (induction xs) (auto split: option.splits)

lemma findIndex_participant:
  "isParticipant g socket \<Longrightarrow> \<exists>i. findIndex (\<lambda>p. id_p p = socket) (players g) = Some i"
  by (cases "findIndex (\<lambda>p. id_p p = socket) (players g)")
     (auto simp: findIndex_None isParticipant_def)

text \<open>\<^verbatim>\<open>findIndex\<close> followed by \<^verbatim>\<open>splice\<close> removes the first participant with the id.\<close>

lemma splice1_withoutFirst:
  "findIndex (\<lambda>p. id_p p = socket) ps = Some i \<Longrightarrow> splice1 i ps = withoutFirst socket ps"
proof (induction ps arbitrary: i)
  case Nil
  then show ?case by simp
next
  case (Cons p ps)
  show ?case
  proof (cases "id_p p = socket")
    case True
    with Cons.prems show ?thesis by (simp add: splice1_def)
  next
    case False
    with Cons.prems obtain j where j: "findIndex (\<lambda>p. id_p p = socket) ps = Some j" "i = Suc j"
      by (auto split: option.splits)
    from Cons.IH[OF j(1)] j(2) False show ?thesis by (simp add: splice1_def)
  qed
qed

lemma game_key_not_inherited:
  assumes "take 5 k = ''game_''"
  shows "k \<notin> set objectPrototypeKeys" and "k \<notin> set [''board'', ''currentPlayer'', ''status'']"
  using assms by (auto simp: objectPrototypeKeys_def)

lemma lookupGame_deleted:
  assumes "take 5 k = ''game_''"
  shows "lookupGame (s\<lparr>games := AList.delete k (games s)\<rparr>) k = Missing"
  using game_key_not_inherited[OF assms]
  by (simp add: lookupGame_def AList.delete_conv')

lemma lookupGame_cong:
  assumes "map_of (games s') k = map_of (games s) k" and "rematched s' = rematched s"
  shows "lookupGame s' k = lookupGame s k"
  unfolding lookupGame_def prototypePolluted_def assms by (rule refl)

lemma lookupGame_update_other:
  "k' \<noteq> k \<Longrightarrow> lookupGame (s\<lparr>games := AList.update k g (games s)\<rparr>) k' = lookupGame s k'"
  by (rule lookupGame_cong) (simp_all add: AList.update_conv')

lemma lookupGame_delete_other:
  "k' \<noteq> k \<Longrightarrow> lookupGame (s\<lparr>games := AList.delete k (games s)\<rparr>) k' = lookupGame s k'"
  by (rule lookupGame_cong) (simp_all add: AList.delete_conv')

lemma removePlayerAt_other:
  "k' \<noteq> k \<Longrightarrow> lookupGame (snd (removePlayerAt k g i s)) k' = lookupGame s k'"
  by (simp add: removePlayerAt_def Let_def lookupGame_update_other lookupGame_delete_other
        split: list.splits)

lemma leaveGame_participant:
  assumes "lookupGame s gameId = Own g" "isParticipant g socket"
  shows "\<exists>i. findIndex (\<lambda>p. id_p p = socket) (players g) = Some i
            \<and> leaveGame socket gameId s = removePlayerAt gameId g i s"
proof -
  from findIndex_participant[OF assms(2)] obtain i where
    "findIndex (\<lambda>p. id_p p = socket) (players g) = Some i" by blast
  with assms(1) show ?thesis by (simp add: leaveGame_def)
qed

text \<open>The first session of the store, in insertion order, that has the connection.\<close>

lemma scanGames_first:
  assumes "\<exists>(k, g) \<in> set gs. isParticipant g socket"
  shows "\<exists>pre gameId g post i. gs = pre @ (gameId, g) # post
           \<and> (\<forall>(k, h) \<in> set pre. \<not> isParticipant h socket)
           \<and> isParticipant g socket
           \<and> scanGames socket gs = Some (gameId, g, i)"
  using assms
proof (induction gs)
  case Nil
  then show ?case by simp
next
  case (Cons kg gs)
  obtain k0 g0 where kg: "kg = (k0, g0)" by (cases kg)
  show ?case
  proof (cases "isParticipant g0 socket")
    case True
    from findIndex_participant[OF True] obtain i where
      i: "findIndex (\<lambda>p. id_p p = socket) (players g0) = Some i" by blast
    show ?thesis
      by (rule exI[of _ "[]"], rule exI[of _ k0], rule exI[of _ g0], rule exI[of _ gs],
          rule exI[of _ i]) (use True i kg in simp)
  next
    case False
    then have none: "findIndex (\<lambda>p. id_p p = socket) (players g0) = None"
      by (auto simp: findIndex_None isParticipant_def)
    from Cons.prems False kg have "\<exists>(k, g) \<in> set gs. isParticipant g socket" by auto
    from Cons.IH[OF this] obtain pre gameId g post i where
      h: "gs = pre @ (gameId, g) # post" "\<forall>(k, h) \<in> set pre. \<not> isParticipant h socket"
        "isParticipant g socket" "scanGames socket gs = Some (gameId, g, i)" by blast
    show ?thesis
      by (rule exI[of _ "kg # pre"], rule exI[of _ gameId], rule exI[of _ g],
          rule exI[of _ post], rule exI[of _ i]) (use h False kg none in simp)
  qed
qed

lemma removePlayerAt_outcome:
  assumes ok: "serverOk s" and own: "lookupGame s gameId = Own g"
    and idx: "findIndex (\<lambda>p. id_p p = socket) (players g) = Some i"
  shows "(withoutFirst socket (players g) = [] \<longrightarrow>
            removePlayerAt gameId g i s = (Emits [], s\<lparr>games := AList.delete gameId (games s)\<rparr>)
            \<and> lookupGame (snd (removePlayerAt gameId g i s)) gameId = Missing)
       \<and> (withoutFirst socket (players g) \<noteq> [] \<longrightarrow>
            (\<exists>p. withoutFirst socket (players g) = [p]
               \<and> fst (removePlayerAt gameId g i s) = Emits [ToRoom (id_p p) PlayerLeft]
               \<and> lookupGame (snd (removePlayerAt gameId g i s)) gameId
                    = Own (g\<lparr>players := [p]\<rparr>)))"
proof -
  note mem = lookupGame_Own_mem[OF own]
  from serverOk_key[OF ok mem] have key: "take 5 gameId = ''game_''" .
  from serverOk_gameOk[OF ok mem] have two: "length (players g) \<le> 2" by (simp add: gameOk_def)
  note sp = splice1_withoutFirst[OF idx]
  from length_splice1[OF findIndex_Some_less[OF idx]] two sp
  have short: "length (withoutFirst socket (players g)) \<le> 1" by simp
  show ?thesis
  proof (cases "withoutFirst socket (players g)")
    case Nil
    with sp lookupGame_deleted[OF key, of s] show ?thesis
      by (simp add: removePlayerAt_def Let_def)
  next
    case (Cons p ps)
    with short have ps: "ps = []" by simp
    with Cons sp show ?thesis
      by (simp add: removePlayerAt_def Let_def lookupGame_update)
  qed
qed

text \<open>
  Claim C8. In a reachable state, when a participant of a session leaves it: if a
  participant remains after the removal, it is the only one, it is sent
  \<^verbatim>\<open>playerLeft\<close>, and the session stays with that single player; if none remains, the
  session record is deleted, nothing is emitted, and a later lookup by that id finds
  nothing, so that joining it is answered with \<^verbatim>\<open>NotFound\<close>. Every other session is
  left as it was. When a connection that is a participant of some session disconnects,
  the handler does exactly what \<^verbatim>\<open>leaveGame\<close> does for the first session of the store
  that has the connection: it is removed from that one session and from no other.
\<close>

theorem leave_or_disconnect:
  assumes "reachable s"
  shows "(\<forall>gameId g. lookupGame s gameId = Own g \<and> isParticipant g socket \<longrightarrow>
            (withoutFirst socket (players g) \<noteq> [] \<longrightarrow>
               (\<exists>p. withoutFirst socket (players g) = [p]
                  \<and> fst (leaveGame socket gameId s) = Emits [ToRoom (id_p p) PlayerLeft]
                  \<and> lookupGame (snd (leaveGame socket gameId s)) gameId = Own (g\<lparr>players := [p]\<rparr>)))
          \<and> (withoutFirst socket (players g) = [] \<longrightarrow>
               leaveGame socket gameId s = (Emits [], s\<lparr>games := AList.delete gameId (games s)\<rparr>)
               \<and> lookupGame (snd (leaveGame socket gameId s)) gameId = Missing
               \<and> fst (joinGame socket' gameId name rnd (snd (leaveGame socket gameId s)))
                    = joinNotFound)
          \<and> (\<forall>k. k \<noteq> gameId \<longrightarrow>
                lookupGame (snd (leaveGame socket gameId s)) k = lookupGame s k))
       \<and> ((\<exists>(k, g) \<in> set (games s). isParticipant g socket) \<longrightarrow>
            (\<exists>pre gameId g post.
               games s = pre @ (gameId, g) # post
               \<and> (\<forall>(k, h) \<in> set pre. \<not> isParticipant h socket)
               \<and> isParticipant g socket
               \<and> lookupGame s gameId = Own g
               \<and> disconnect socket s = leaveGame socket gameId s))"
proof -
  note ok = reachable_serverOk[OF assms]
  have leave: "(withoutFirst socket (players g) \<noteq> [] \<longrightarrow>
               (\<exists>p. withoutFirst socket (players g) = [p]
                  \<and> fst (leaveGame socket gameId s) = Emits [ToRoom (id_p p) PlayerLeft]
                  \<and> lookupGame (snd (leaveGame socket gameId s)) gameId = Own (g\<lparr>players := [p]\<rparr>)))
          \<and> (withoutFirst socket (players g) = [] \<longrightarrow>
               leaveGame socket gameId s = (Emits [], s\<lparr>games := AList.delete gameId (games s)\<rparr>)
               \<and> lookupGame (snd (leaveGame socket gameId s)) gameId = Missing
               \<and> fst (joinGame socket' gameId name rnd (snd (leaveGame socket gameId s)))
                    = joinNotFound)
          \<and> (\<forall>k. k \<noteq> gameId \<longrightarrow>
                lookupGame (snd (leaveGame socket gameId s)) k = lookupGame s k)"
    if own: "lookupGame s gameId = Own g" and part: "isParticipant g socket" for gameId g
  proof -
    from leaveGame_participant[OF own part] obtain i where
      idx: "findIndex (\<lambda>p. id_p p = socket) (players g) = Some i"
      and lg: "leaveGame socket gameId s = removePlayerAt gameId g i s" by blast
    note ro = removePlayerAt_outcome[OF ok own idx]
    have other: "\<forall>k. k \<noteq> gameId \<longrightarrow>
                lookupGame (snd (leaveGame socket gameId s)) k = lookupGame s k"
      unfolding lg by (simp add: removePlayerAt_other)
    from ro have some: "withoutFirst socket (players g) \<noteq> [] \<longrightarrow>
               (\<exists>p. withoutFirst socket (players g) = [p]
                  \<and> fst (leaveGame socket gameId s) = Emits [ToRoom (id_p p) PlayerLeft]
                  \<and> lookupGame (snd (leaveGame socket gameId s)) gameId = Own (g\<lparr>players := [p]\<rparr>))"
      unfolding lg by (rule conjunct2)
    have none: "withoutFirst socket (players g) = [] \<longrightarrow>
               leaveGame socket gameId s = (Emits [], s\<lparr>games := AList.delete gameId (games s)\<rparr>)
               \<and> lookupGame (snd (leaveGame socket gameId s)) gameId = Missing
               \<and> fst (joinGame socket' gameId name rnd (snd (leaveGame socket gameId s)))
                    = joinNotFound"
    proof
      assume "withoutFirst socket (players g) = []"
      with ro have del: "leaveGame socket gameId s
                           = (Emits [], s\<lparr>games := AList.delete gameId (games s)\<rparr>)"
        and miss: "lookupGame (snd (leaveGame socket gameId s)) gameId = Missing"
        unfolding lg by blast+
      from joinGame_Missing[OF miss]
      have "fst (joinGame socket' gameId name rnd (snd (leaveGame socket gameId s))) = joinNotFound"
        by simp
      with del miss show "leaveGame socket gameId s
                            = (Emits [], s\<lparr>games := AList.delete gameId (games s)\<rparr>)
               \<and> lookupGame (snd (leaveGame socket gameId s)) gameId = Missing
               \<and> fst (joinGame socket' gameId name rnd (snd (leaveGame socket gameId s)))
                    = joinNotFound"
        by (intro conjI)
    qed
    show ?thesis by (rule conjI[OF some conjI[OF none other]])
  qed
  have disc: "\<exists>pre gameId g post.
               games s = pre @ (gameId, g) # post
               \<and> (\<forall>(k, h) \<in> set pre. \<not> isParticipant h socket)
               \<and> isParticipant g socket
               \<and> lookupGame s gameId = Own g
               \<and> disconnect socket s = leaveGame socket gameId s"
    if "\<exists>(k, g) \<in> set (games s). isParticipant g socket"
  proof -
    from scanGames_first[OF that] obtain pre gameId g post i where
      h: "games s = pre @ (gameId, g) # post" "\<forall>(k, h) \<in> set pre. \<not> isParticipant h socket"
        "isParticipant g socket" "scanGames socket (games s) = Some (gameId, g, i)" by blast
    from ok have "distinct (map fst (games s))" by (simp add: serverOk_def)
    moreover from h(1) have "(gameId, g) \<in> set (games s)" by simp
    ultimately have own: "lookupGame s gameId = Own g"
      by (simp add: lookupGame_Own)
    from scanGames_Some[OF h(4)] have
      idx: "findIndex (\<lambda>p. id_p p = socket) (players g) = Some i" by simp
    from own idx h(4) have "disconnect socket s = leaveGame socket gameId s"
      by (simp add: disconnect_def leaveGame_def)
    with h(1-3) own show ?thesis by blast
  qed
  from leave disc show ?thesis by blast
qed

text \<open>
  In the example the second participant leaves, or disconnects, and the first is
  notified; when the last participant of a session leaves, the session is gone.
\<close>

theorem leave_or_disconnect_witness:
  "reachable exStarted
   \<and> lookupGame exStarted ''game_k3f9x2a1b'' = Own exGame
   \<and> isParticipant exGame ''sockB''
   \<and> fst (leaveGame ''sockB'' ''game_k3f9x2a1b'' exStarted) = Emits [ToRoom ''sockA'' PlayerLeft]
   \<and> disconnect ''sockB'' exStarted = leaveGame ''sockB'' ''game_k3f9x2a1b'' exStarted
   \<and> reachable exLeft
   \<and> lookupGame exLeft ''game_k3f9x2a1b'' = Own exGameLeft
   \<and> isParticipant exGameLeft ''sockA''
   \<and> lookupGame (snd (leaveGame ''sockA'' ''game_k3f9x2a1b'' exLeft)) ''game_k3f9x2a1b'' = Missing
   \<and> fst (joinGame ''sockC'' ''game_k3f9x2a1b'' ''cy'' 0
            (snd (leaveGame ''sockA'' ''game_k3f9x2a1b'' exLeft))) = joinNotFound"
proof -
  have h1: "reachable exStarted" by (rule reachable_exStarted)
  have h2: "lookupGame exStarted ''game_k3f9x2a1b'' = Own exGame"
    by (simp add: exStarted_eq lookupGame_def)
  have h3: "isParticipant exGame ''sockB''"
    by (simp add: isParticipant_def exGame_def exPlayerA_def exPlayerB_def)
  have w: "withoutFirst ''sockB'' (players exGame) = [exPlayerA]"
    by (simp add: exGame_def exPlayerA_def exPlayerB_def)
  note t = leave_or_disconnect[OF h1, of "''sockB''"]
  from t h2 h3 w have "\<exists>p. [exPlayerA] = [p]
      \<and> fst (leaveGame ''sockB'' ''game_k3f9x2a1b'' exStarted) = Emits [ToRoom (id_p p) PlayerLeft]"
    by fastforce
  then have leave: "fst (leaveGame ''sockB'' ''game_k3f9x2a1b'' exStarted)
                      = Emits [ToRoom ''sockA'' PlayerLeft]"
    by (auto simp: exPlayerA_def)
  have "\<exists>(k, g) \<in> set (games exStarted). isParticipant g ''sockB''"
    using h3 by (simp add: exStarted_eq)
  with t obtain pre gameId g post where
    "games exStarted = pre @ (gameId, g) # post"
    "disconnect ''sockB'' exStarted = leaveGame ''sockB'' gameId exStarted" by blast
  then have disc: "disconnect ''sockB'' exStarted = leaveGame ''sockB'' ''game_k3f9x2a1b'' exStarted"
    by (auto simp: exStarted_eq Cons_eq_append_conv)
  have k1: "reachable exLeft" by (rule reachable_exLeft)
  have k2: "lookupGame exLeft ''game_k3f9x2a1b'' = Own exGameLeft"
    by (simp add: exLeft_eq lookupGame_def)
  have k3: "isParticipant exGameLeft ''sockA''"
    by (simp add: isParticipant_def exGameLeft_def exPlayerA_def)
  have v: "withoutFirst ''sockA'' (players exGameLeft) = []"
    by (simp add: exGameLeft_def exPlayerA_def)
  from leave_or_disconnect[OF k1, of "''sockA''" "''sockC''" "''cy''" 0] k2 k3 v
  have gone: "lookupGame (snd (leaveGame ''sockA'' ''game_k3f9x2a1b'' exLeft)) ''game_k3f9x2a1b''
                = Missing
      \<and> fst (joinGame ''sockC'' ''game_k3f9x2a1b'' ''cy'' 0
               (snd (leaveGame ''sockA'' ''game_k3f9x2a1b'' exLeft))) = joinNotFound"
    by blast
  from h1 h2 h3 leave disc k1 k2 k3 gone show ?thesis by (intro conjI) simp_all
qed

section \<open>Session ids and cell indices: proofs\<close>

subsection \<open>Session ids\<close>

lemma update_fresh: "k \<notin> fst ` set al \<Longrightarrow> AList.update k v al = al @ [(k, v)]"
  by (induction al) auto

text \<open>
  Claim C9 fails on the code: \<^verbatim>\<open>createGame\<close> does not test whether the generated id
  is in use. When the random token repeats the one of a live session, the assignment
  \<^verbatim>\<open>games[gameId] = {...}\<close> replaces that session's record: in the example the
  session of the two players is displaced by the new session of a third socket.
\<close>

theorem createGame_collision_counterexample:
  "reachable exStarted
   \<and> lookupGame exStarted ''game_k3f9x2a1b'' = Own exGame
   \<and> lookupGame (snd (createGame ''sockC'' ''cy'' ''k3f9x2a1b'' 0 exStarted)) ''game_k3f9x2a1b''
       = Own \<lparr>players = [\<lparr>id_p = ''sockC'', username = ''cy'', symbol = ''X'',
                            disconnected = False\<rparr>],
              board = [Null, Null, Null, Null, Null, Null, Null, Null, Null],
              currentPlayer = ''X'', status = ''waiting'', winner = Undefined\<rparr>
   \<and> lookupGame (snd (createGame ''sockC'' ''cy'' ''k3f9x2a1b'' 0 exStarted)) ''game_k3f9x2a1b''
       \<noteq> Own exGame"
  using reachable_exStarted
  by (simp add: exStarted_eq exGame_def exPlayerA_def exPlayerB_def createGame_def lookupGame_def
        playerNameOf_def Let_def eval_nat_numeral)

text \<open>
  Claim C9 as amended. In every reachable state the session ids of the store are
  pairwise distinct, and they stay so after \<^verbatim>\<open>createGame\<close>. The new session is stored
  under \<^verbatim>\<open>game_\<close> followed by the token, and every session with another id is left as
  it was; so a \<^verbatim>\<open>createGame\<close> whose generated id is not the id of a live session
  displaces no session, and appends the new one to the store.
\<close>

theorem createGame_keeps_sessions:
  assumes "reachable s"
  shows "distinct (map fst (games s))
       \<and> distinct (map fst (games (snd (createGame socket name token rnd s))))
       \<and> (\<exists>g. lookupGame (snd (createGame socket name token rnd s)) (''game_'' @ token) = Own g
              \<and> players g = [\<lparr>id_p = socket, username = playerNameOf name rnd, symbol = ''X'',
                                disconnected = False\<rparr>]
              \<and> board g = replicate 9 Null \<and> currentPlayer g = ''X''
              \<and> status g = ''waiting'' \<and> noWinner g)
       \<and> (\<forall>k. k \<noteq> ''game_'' @ token \<longrightarrow>
              lookupGame (snd (createGame socket name token rnd s)) k = lookupGame s k)
       \<and> (map_of (games s) (''game_'' @ token) = None \<longrightarrow>
              (\<forall>k g. lookupGame s k = Own g \<longrightarrow>
                 lookupGame (snd (createGame socket name token rnd s)) k = Own g)
              \<and> (\<exists>g. games (snd (createGame socket name token rnd s))
                        = games s @ [(''game_'' @ token, g)]))"
proof -
  let ?s' = "snd (createGame socket name token rnd s)"
  let ?id = "''game_'' @ token"
  from reachable_serverOk[OF assms] have d: "distinct (map fst (games s))"
    by (simp add: serverOk_def)
  from serverOk_createGame[OF reachable_serverOk[OF assms]]
  have d': "distinct (map fst (games ?s'))" by (simp add: serverOk_def)
  have new: "\<exists>g. lookupGame ?s' ?id = Own g
              \<and> players g = [\<lparr>id_p = socket, username = playerNameOf name rnd, symbol = ''X'',
                                disconnected = False\<rparr>]
              \<and> board g = replicate 9 Null \<and> currentPlayer g = ''X''
              \<and> status g = ''waiting'' \<and> noWinner g"
    by (simp add: createGame_def Let_def lookupGame_update noWinner_def)
  have other: "\<forall>k. k \<noteq> ?id \<longrightarrow> lookupGame ?s' k = lookupGame s k"
    by (simp add: createGame_def Let_def lookupGame_update_other)
  have fresh: "map_of (games s) ?id = None \<longrightarrow>
              (\<forall>k g. lookupGame s k = Own g \<longrightarrow> lookupGame ?s' k = Own g)
              \<and> (\<exists>g. games ?s' = games s @ [(?id, g)])"
  proof
    assume none: "map_of (games s) ?id = None"
    have keep: "\<forall>k g. lookupGame s k = Own g \<longrightarrow> lookupGame ?s' k = Own g"
    proof (intro allI impI)
      fix k g assume own: "lookupGame s k = Own g"
      with none have "k \<noteq> ?id" by (auto simp: lookupGame_Own)
      with other own show "lookupGame ?s' k = Own g" by simp
    qed
    let ?G = "\<lparr>players = [\<lparr>id_p = socket, username = playerNameOf name rnd, symbol = ''X'',
                              disconnected = False\<rparr>],
               board = replicate 9 Null, currentPlayer = ''X'', status = ''waiting'',
               winner = Undefined\<rparr>"
    from none have nin: "?id \<notin> fst ` set (games s)" by (simp add: map_of_eq_None_iff)
    have "games ?s' = AList.update ?id ?G (games s)"
      by (simp add: createGame_def Let_def)
    also have "\<dots> = games s @ [(?id, ?G)]" by (rule update_fresh[OF nin])
    finally have "\<exists>g. games ?s' = games s @ [(?id, g)]" by (rule exI)
    with keep show "(\<forall>k g. lookupGame s k = Own g \<longrightarrow> lookupGame ?s' k = Own g)
              \<and> (\<exists>g. games ?s' = games s @ [(?id, g)])" by (rule conjI)
  qed
  show ?thesis by (rule conjI[OF d conjI[OF d' conjI[OF new conjI[OF other fresh]]]])
qed

text \<open>A third socket creates a session under a fresh token: the first session stays.\<close>

theorem createGame_keeps_sessions_witness:
  "reachable exStarted
   \<and> map_of (games exStarted) (''game_'' @ ''q7w8e9r0t'') = None
   \<and> lookupGame exStarted ''game_k3f9x2a1b'' = Own exGame
   \<and> lookupGame (snd (createGame ''sockC'' ''cy'' ''q7w8e9r0t'' 0 exStarted)) ''game_k3f9x2a1b''
       = Own exGame
   \<and> distinct (map fst (games (snd (createGame ''sockC'' ''cy'' ''q7w8e9r0t'' 0 exStarted))))"
proof -
  have h1: "reachable exStarted" by (rule reachable_exStarted)
  have h2: "map_of (games exStarted) (''game_'' @ ''q7w8e9r0t'') = None"
    by (simp add: exStarted_eq)
  have h3: "lookupGame exStarted ''game_k3f9x2a1b'' = Own exGame"
    by (simp add: exStarted_eq lookupGame_def)
  from createGame_keeps_sessions[OF h1, of "''sockC''" "''cy''" "''q7w8e9r0t''" 0] h2 h3
  have "lookupGame (snd (createGame ''sockC'' ''cy'' ''q7w8e9r0t'' 0 exStarted)) ''game_k3f9x2a1b''
          = Own exGame"
    and "distinct (map fst (games (snd (createGame ''sockC'' ''cy'' ''q7w8e9r0t'' 0 exStarted))))"
    by blast+
  with h1 h2 h3 show ?thesis by (intro conjI)
qed

subsection \<open>Cell indices outside the board\<close>

lemma makeMove_changes_in_range:
  assumes "serverOk s" "cellIndex < 0 \<or> 8 < cellIndex"
  shows "snd (makeMove socket gameId cellIndex s) = s"
proof (cases "lookupGame s gameId")
  case (Own g)
  from serverOk_gameOk[OF assms(1) lookupGame_Own_mem[OF Own]]
  have "length (board g) = 9" by (simp add: gameOk_def boardOk_def)
  with assms(2) have "cellAt (board g) cellIndex \<noteq> Null" by (auto simp: cellAt_def)
  from makeMove_taken[OF Own this] show ?thesis by simp
qed (simp_all add: makeMove_def)

text \<open>
  Claim C10. In a reachable state, for every existing session and every integer
  \<^verbatim>\<open>cellIndex\<close> below 0 or above 8, \<^verbatim>\<open>makeMove\<close> answers \<^verbatim>\<open>'Space already taken'\<close>
  and leaves the state as it was. No request writes outside a board: whatever the
  request, a change of the state implies an index from 0 to 8, and afterwards every board
  of the store still has nine cells (a write at or beyond the length would extend it).
\<close>

theorem makeMove_out_of_range:
  assumes "reachable s"
  shows "(\<forall>g. lookupGame s gameId = Own g \<and> (cellIndex < 0 \<or> 8 < cellIndex) \<longrightarrow>
            makeMove socket gameId cellIndex s = (moveCellTaken, s))
       \<and> (snd (makeMove socket gameId cellIndex s) \<noteq> s \<longrightarrow> 0 \<le> cellIndex \<and> cellIndex \<le> 8)
       \<and> (\<forall>(k, g') \<in> set (games (snd (makeMove socket gameId cellIndex s))).
            length (board g') = 9)"
proof -
  note ok = reachable_serverOk[OF assms]
  have 1: "\<forall>g. lookupGame s gameId = Own g \<and> (cellIndex < 0 \<or> 8 < cellIndex) \<longrightarrow>
            makeMove socket gameId cellIndex s = (moveCellTaken, s)"
  proof (intro allI impI)
    fix g assume h: "lookupGame s gameId = Own g \<and> (cellIndex < 0 \<or> 8 < cellIndex)"
    from h have own: "lookupGame s gameId = Own g" by simp
    from serverOk_gameOk[OF ok lookupGame_Own_mem[OF own]]
    have "length (board g) = 9" by (simp add: gameOk_def boardOk_def)
    with h have "cellAt (board g) cellIndex \<noteq> Null" by (auto simp: cellAt_def)
    with h show "makeMove socket gameId cellIndex s = (moveCellTaken, s)"
      by (simp add: makeMove_taken)
  qed
  have 2: "snd (makeMove socket gameId cellIndex s) \<noteq> s \<longrightarrow> 0 \<le> cellIndex \<and> cellIndex \<le> 8"
    using makeMove_changes_in_range[OF ok, of cellIndex socket gameId] by linarith
  have 3: "\<forall>(k, g') \<in> set (games (snd (makeMove socket gameId cellIndex s))).
            length (board g') = 9"
    using serverOk_makeMove[OF ok, of socket gameId cellIndex]
    by (auto simp: serverOk_def gameOk_def boardOk_def)
  show ?thesis by (rule conjI[OF 1 conjI[OF 2 3]])
qed

text \<open>In the example a move to cell 9, and one to cell -1, are refused.\<close>

theorem makeMove_out_of_range_witness:
  "reachable exStarted
   \<and> lookupGame exStarted ''game_k3f9x2a1b'' = Own exGame
   \<and> makeMove ''sockA'' ''game_k3f9x2a1b'' 9 exStarted = (moveCellTaken, exStarted)
   \<and> makeMove ''sockA'' ''game_k3f9x2a1b'' (- 1) exStarted = (moveCellTaken, exStarted)"
proof -
  have h1: "reachable exStarted" by (rule reachable_exStarted)
  have h2: "lookupGame exStarted ''game_k3f9x2a1b'' = Own exGame"
    by (simp add: exStarted_eq lookupGame_def)
  from makeMove_out_of_range[OF h1, of "''game_k3f9x2a1b''" 9 "''sockA''"] h2
  have a: "makeMove ''sockA'' ''game_k3f9x2a1b'' 9 exStarted = (moveCellTaken, exStarted)"
    by simp
  from makeMove_out_of_range[OF h1, of "''game_k3f9x2a1b''" "- 1" "''sockA''"] h2
  have b: "makeMove ''sockA'' ''game_k3f9x2a1b'' (- 1) exStarted = (moveCellTaken, exStarted)"
    by simp
  from h1 h2 a b show ?thesis by (intro conjI)
qed

end
